theory Spec2Isabelle
  imports Main "HOL-Library.AList" "HOL-Library.Char_ord" "HOL-Library.List_Lexorder"
    "HOL-Library.Multiset" "HOL-Library.Word"
begin

section \<open>Strings and time stamps\<close>

text \<open>
  Go strings are byte sequences; they are modelled as \<^typ>\<open>string\<close>, one
  \<^typ>\<open>char\<close> per byte, and \<open><\<close> on strings is the bytewise lexicographic order
  of Go.

  \<open>strings.TrimSpace\<close>, \<open>strings.ToUpper\<close> and the treatment of strings by
  \<open>encoding/json\<close> belong to the Go standard library, not to this repository. They work
  on Unicode text (white space such as U+00A0 is trimmed, U+017F is upper-cased to \<open>S\<close>,
  bytes that are not UTF-8 are replaced by U+FFFD when a string is encoded or decoded), and
  their tables are not reproduced here: the program is modelled for any such functions,
  which it takes as the parameter \<open>L\<close>. \<open>jsonString L s\<close> is the string that
  \<open>encoding/json\<close> makes of \<open>s\<close>.
\<close>

record library =
  TrimSpace :: "string \<Rightarrow> string"
  ToUpper :: "string \<Rightarrow> string"
  jsonString :: "string \<Rightarrow> string"

text \<open>
  A reading of \<open>time.Now().UTC()\<close> is kept as its broken-down UTC fields; the program
  only tests it with \<open>IsZero\<close> and prints it with \<open>Format\<close>.
\<close>

record Time =
  Year :: int
  Month :: int
  Day :: int
  Hour :: int
  Minute :: int
  Second :: int
  Nanosecond :: int

definition IsZero :: "Time \<Rightarrow> bool" where
  "IsZero t \<longleftrightarrow> Year t = 1 \<and> Month t = 1 \<and> Day t = 1 \<and> Hour t = 0 \<and> Minute t = 0
     \<and> Second t = 0 \<and> Nanosecond t = 0"

text \<open>Decimal digits of a number that is not negative, as \<open>%d\<close> prints them.\<close>

function dec :: "int \<Rightarrow> string" where
  "dec n = (if n < 10 then [char_of (48 + n)] else dec (n div 10) @ [char_of (48 + n mod 10)])"
  by pat_completeness auto
termination
  by (relation "measure nat") auto

declare dec.simps [simp del]

definition pad :: "nat \<Rightarrow> int \<Rightarrow> string" where
  "pad w n = replicate (w - length (dec n)) (CHR ''0'') @ dec n"

definition hexdigit :: "int \<Rightarrow> char" where
  "hexdigit d = (if d < 10 then char_of (48 + d) else char_of (87 + d))"

text \<open>\<open>%02x\<close> of a byte.\<close>

definition hex2 :: "8 word \<Rightarrow> string" where
  "hex2 b = [hexdigit (uint b div 16), hexdigit (uint b mod 16)]"

text \<open>The layout \<open>20060102T150405.000000000\<close> used by \<open>nextID\<close>.\<close>

definition format_stamp :: "Time \<Rightarrow> string" where
  "format_stamp t = pad 4 (Year t) @ pad 2 (Month t) @ pad 2 (Day t) @ ''T'' @ pad 2 (Hour t)
     @ pad 2 (Minute t) @ pad 2 (Second t) @ ''.'' @ pad 9 (Nanosecond t)"

text \<open>\<open>time.RFC3339Nano\<close> on a UTC time: trailing zeros of the fraction are dropped.\<close>

definition fraction :: "int \<Rightarrow> string" where
  "fraction ns =
     (if ns = 0 then [] else ''.'' @ rev (dropWhile (\<lambda>c. c = CHR ''0'') (rev (pad 9 ns))))"

definition format_RFC3339Nano :: "Time \<Rightarrow> string" where
  "format_RFC3339Nano t = pad 4 (Year t) @ ''-'' @ pad 2 (Month t) @ ''-'' @ pad 2 (Day t)
     @ ''T'' @ pad 2 (Hour t) @ '':'' @ pad 2 (Minute t) @ '':'' @ pad 2 (Second t)
     @ fraction (Nanosecond t) @ ''Z''"

text \<open>
  The clock of one operation: \<open>clk i\<close> is what the \<open>i\<close>-th call of \<open>time.Now()\<close>
  made by that operation returns.
\<close>

type_synonym clock = "nat \<Rightarrow> Time"

section \<open>Data structures\<close>

record AddTaskReq =
  req_IntervalSeconds :: int
  req_URL :: string
  req_Method :: string
  req_Description :: string

text \<open>
  \<open>cancel\<close> is the stored \<open>context.CancelFunc\<close>: \<open>None\<close> is \<open>nil\<close>, \<open>Some c\<close>
  is the cancel function of context number \<open>c\<close>.
\<close>

record Task =
  ID :: string
  IntervalSeconds :: int
  URL :: string
  Method :: string
  Description :: string
  paused :: bool
  startedAt :: Time
  runCount :: "64 word"
  cancel :: "nat option"

record persistedTask =
  p_ID :: string
  p_IntervalSeconds :: int
  p_URL :: string
  p_Method :: string
  p_Description :: string
  Enabled :: bool
  CreatedAt :: string
  UpdatedAt :: string

record persistedFile =
  Version :: int
  Port :: int
  Tasks :: "persistedTask list"

text \<open>
  The map \<open>tasks\<close> is an association list: \<open>s.tasks[id] = t\<close> is
  \<^const>\<open>AList.update\<close>, \<open>delete(s.tasks, id)\<close> is \<^const>\<open>AList.delete\<close>, a lookup is
  \<^const>\<open>map_of\<close>. The HTTP client and the fixed file path are left out.
\<close>

record Scheduler =
  tasks :: "(string \<times> Task) list"
  idSeq :: "64 word"
  port :: int

definition NewScheduler :: Scheduler where
  "NewScheduler = \<lparr>tasks = [], idSeq = 0, port = 9000\<rparr>"

section \<open>The world around the scheduler\<close>

text \<open>
  What is stored at a path: nothing, bytes that do not decode into a
  \<open>persistedFile\<close>, or the JSON text of one. Decoding \<open>Content v\<close> gives \<open>v\<close>
  with every string as \<open>encoding/json\<close> makes it (\<open>decodeFile\<close> below).
\<close>

datatype stored = Absent | Torn | Content persistedFile

text \<open>Where a write of \<open>atomicWriteJSON\<close> fails, if it does.\<close>

datatype fault = NoFault | OpenFails | EncodeFails | SyncFails | CloseFails | RenameFails

datatype error = ErrMethod | ErrInterval | ErrWrite fault | ErrOpen | ErrInvalidConfig

text \<open>One constructor for each \<open>log.Printf\<close> of the program.\<close>

datatype log_entry =
    LogConfigNotFound
  | LogUsingPort int
  | LogRestoreSkipMethod string string
  | LogRestoreSkipIntervalURL string
  | LogRestoreRunning string string string int
  | LogRestorePaused string string string int
  | LogRestoreDone nat
  | LogLoadError error
  | LogTaskStopped string
  | LogBuildRequestError string
  | LogRequestError string
  | LogTaskResult string string string string "64 word"

text \<open>
  The scheduler together with the file \<open>config.json\<close> (\<open>target\<close>), its temporary
  sibling (\<open>tmpfile\<close>), the contexts created so far (\<open>ctxSeq\<close>), the goroutines started
  by \<open>go s.runTask(ctx, t)\<close> as pairs of context and task id (\<open>loops\<close>), the contexts
  whose cancel function has been called (\<open>cancelled\<close>) and the log.
\<close>

record World = Scheduler +
  target :: stored
  tmpfile :: stored
  ctxSeq :: nat
  loops :: "(nat \<times> string) list"
  cancelled :: "nat list"
  logs :: "log_entry list"

definition boot :: "stored \<Rightarrow> stored \<Rightarrow> World" where
  "boot f g = \<lparr>tasks = tasks NewScheduler, idSeq = idSeq NewScheduler, port = port NewScheduler,
     target = f, tmpfile = g, ctxSeq = 0, loops = [], cancelled = [], logs = []\<rparr>"

section \<open>Identifiers\<close>

definition nextID :: "Time \<Rightarrow> (8 word \<times> 8 word) option \<Rightarrow> World \<Rightarrow> string \<times> World" where
  "nextID t rnd w =
     (let n = idSeq w + 1;
          now = format_stamp t;
          w' = w\<lparr>idSeq := n\<rparr>
      in case rnd of
           None \<Rightarrow> (now @ ''-'' @ dec (uint n), w')
         | Some (r0, r1) \<Rightarrow> (now @ ''-'' @ hex2 r0 @ hex2 r1 @ ''-'' @ dec (uint n), w'))"

section \<open>Persistence\<close>

definition atomicWriteJSON :: "fault \<Rightarrow> persistedFile \<Rightarrow> World \<Rightarrow> error option \<times> World" where
  "atomicWriteJSON flt v w =
     (case flt of
        OpenFails \<Rightarrow> (Some (ErrWrite OpenFails), w)
      | EncodeFails \<Rightarrow> (Some (ErrWrite EncodeFails), w\<lparr>tmpfile := Torn\<rparr>)
      | SyncFails \<Rightarrow> (Some (ErrWrite SyncFails), w\<lparr>tmpfile := Content v\<rparr>)
      | CloseFails \<Rightarrow> (Some (ErrWrite CloseFails), w\<lparr>tmpfile := Content v\<rparr>)
      | RenameFails \<Rightarrow> (Some (ErrWrite RenameFails), w\<lparr>tmpfile := Content v\<rparr>)
      | NoFault \<Rightarrow> (None, w\<lparr>tmpfile := Absent, target := Content v\<rparr>))"

text \<open>
  The loop of \<open>saveToDiskLocked\<close> over the tasks; \<open>k\<close> counts the clock readings, one
  more for each task whose \<open>startedAt\<close> is the zero time.
\<close>

fun persistTasks :: "clock \<Rightarrow> nat \<Rightarrow> string \<Rightarrow> Task list \<Rightarrow> persistedTask list" where
  "persistTasks clk k now [] = []"
| "persistTasks clk k now (t # ts) =
     (let zero = IsZero (startedAt t);
          created = (if zero then clk k else startedAt t)
      in \<lparr>p_ID = ID t, p_IntervalSeconds = IntervalSeconds t, p_URL = URL t,
           p_Method = Method t, p_Description = Description t, Enabled = (\<not> paused t),
           CreatedAt = format_RFC3339Nano created, UpdatedAt = now\<rparr>
         # persistTasks clk (if zero then Suc k else k) now ts)"

text \<open>
  The file that \<open>saveToDiskLocked\<close> builds: the entries sorted by id. The program sorts
  with \<open>sort.Slice\<close>, which may put entries of equal id in either order; the model keeps
  them in the order of the registry. Every task of a reachable scheduler is stored under
  its own id, so there the ids of the entries are distinct and the order is determined.
\<close>

definition snapshot :: "clock \<Rightarrow> World \<Rightarrow> persistedFile" where
  "snapshot clk w =
     \<lparr>Version = 1, Port = port w,
      Tasks = sort_key p_ID
        (persistTasks clk 1 (format_RFC3339Nano (clk 0)) (map snd (tasks w)))\<rparr>"

definition saveToDiskLocked :: "clock \<Rightarrow> fault \<Rightarrow> World \<Rightarrow> error option \<times> World" where
  "saveToDiskLocked clk flt w = atomicWriteJSON flt (snapshot clk w) w"

text \<open>
  What the decoder of \<open>encoding/json\<close> hands to \<open>loadFromDisk\<close> for a file.
\<close>

definition decodeTask :: "library \<Rightarrow> persistedTask \<Rightarrow> persistedTask" where
  "decodeTask L pt =
     \<lparr>p_ID = jsonString L (p_ID pt), p_IntervalSeconds = p_IntervalSeconds pt,
      p_URL = jsonString L (p_URL pt), p_Method = jsonString L (p_Method pt),
      p_Description = jsonString L (p_Description pt), Enabled = Enabled pt,
      CreatedAt = jsonString L (CreatedAt pt), UpdatedAt = jsonString L (UpdatedAt pt)\<rparr>"

definition decodeFile :: "library \<Rightarrow> persistedFile \<Rightarrow> persistedFile" where
  "decodeFile L v = \<lparr>Version = Version v, Port = Port v, Tasks = map (decodeTask L) (Tasks v)\<rparr>"

text \<open>
  The restore loop of \<open>loadFromDisk\<close>. \<open>restored\<close> is the counter of the source; the
  clock is read once for each restored entry, so it also numbers the readings.
\<close>

fun restoreTasks ::
  "library \<Rightarrow> clock \<Rightarrow> nat \<Rightarrow> persistedTask list \<Rightarrow> World \<Rightarrow> nat \<times> World"
where
  "restoreTasks L clk restored [] w = (restored, w)"
| "restoreTasks L clk restored (pt # pts) w =
     (let method = ToUpper L (TrimSpace L (p_Method pt)) in
      if method \<noteq> ''GET'' \<and> method \<noteq> ''POST'' then
        restoreTasks L clk restored pts
          (w\<lparr>logs := logs w @ [LogRestoreSkipMethod (p_ID pt) (p_Method pt)]\<rparr>)
      else if p_IntervalSeconds pt < 1 \<or> TrimSpace L (p_URL pt) = [] then
        restoreTasks L clk restored pts
          (w\<lparr>logs := logs w @ [LogRestoreSkipIntervalURL (p_ID pt)]\<rparr>)
      else
        let ctx = ctxSeq w;
            t = \<lparr>ID = p_ID pt, IntervalSeconds = p_IntervalSeconds pt, URL = p_URL pt,
                 Method = method, Description = p_Description pt, paused = (\<not> Enabled pt),
                 startedAt = clk restored, runCount = 0, cancel = None\<rparr>;
            w1 = w\<lparr>ctxSeq := Suc ctx, tasks := AList.update (ID t) t (tasks w)\<rparr>;
            w2 = (if Enabled pt then
                    w1\<lparr>tasks := AList.update (ID t) (t\<lparr>cancel := Some ctx\<rparr>) (tasks w1),
                       loops := loops w1 @ [(ctx, ID t)],
                       logs := logs w1 @
                         [LogRestoreRunning (ID t) (Method t) (URL t) (IntervalSeconds t)]\<rparr>
                  else
                    w1\<lparr>cancelled := cancelled w1 @ [ctx],
                       logs := logs w1 @
                         [LogRestorePaused (ID t) (Method t) (URL t) (IntervalSeconds t)]\<rparr>)
        in restoreTasks L clk (Suc restored) pts w2)"

definition loadFromDisk ::
  "library \<Rightarrow> clock \<Rightarrow> bool \<Rightarrow> fault \<Rightarrow> World \<Rightarrow> error option \<times> World"
where
  "loadFromDisk L clk open_fails flt w =
     (case target w of
        Absent \<Rightarrow>
          atomicWriteJSON flt \<lparr>Version = 1, Port = port w, Tasks = []\<rparr>
            (w\<lparr>logs := logs w @ [LogConfigNotFound]\<rparr>)
      | Torn \<Rightarrow> if open_fails then (Some ErrOpen, w) else (Some ErrInvalidConfig, w)
      | Content v \<Rightarrow>
          if open_fails then (Some ErrOpen, w)
          else
            let pf = decodeFile L v;
                w1 = (if Port pf > 0 then w\<lparr>port := Port pf\<rparr> else w);
                w2 = w1\<lparr>logs := logs w1 @ [LogUsingPort (port w1)]\<rparr>;
                (restored, w3) = restoreTasks L clk 0 (Tasks pf) w2
            in (None, w3\<lparr>logs := logs w3 @ [LogRestoreDone restored]\<rparr>))"

section \<open>Task operations\<close>

definition AddTask ::
  "library \<Rightarrow> clock \<Rightarrow> (8 word \<times> 8 word) option \<Rightarrow> fault \<Rightarrow> AddTaskReq \<Rightarrow> World
     \<Rightarrow> (error + string) \<times> World"
where
  "AddTask L clk rnd flt req w =
     (let method = ToUpper L (TrimSpace L (req_Method req)) in
      if method \<noteq> ''GET'' \<and> method \<noteq> ''POST'' then (Inl ErrMethod, w)
      else if req_IntervalSeconds req < 1 then (Inl ErrInterval, w)
      else
        let (tid, w1) = nextID (clk 0) rnd w;
            t = \<lparr>ID = tid, IntervalSeconds = req_IntervalSeconds req, URL = req_URL req,
                 Method = method, Description = TrimSpace L (req_Description req),
                 paused = False, startedAt = clk 1, runCount = 0, cancel = None\<rparr>;
            w2 = w1\<lparr>tasks := AList.update tid t (tasks w1)\<rparr>
        in case saveToDiskLocked (\<lambda>i. clk (i + 2)) flt w2 of
             (Some err, w3) \<Rightarrow> (Inl err, w3\<lparr>tasks := AList.delete tid (tasks w3)\<rparr>)
           | (None, w3) \<Rightarrow>
               let ctx = ctxSeq w3
               in (Inr tid,
                   w3\<lparr>ctxSeq := Suc ctx,
                      tasks := AList.update tid (t\<lparr>cancel := Some ctx\<rparr>) (tasks w3),
                      loops := loops w3 @ [(ctx, tid)]\<rparr>))"

text \<open>
  \<open>t.cancel(); t.cancel = nil\<close> on the task stored under \<open>tid\<close>, when a cancel function
  is stored.
\<close>

definition cancelTask :: "string \<Rightarrow> Task \<Rightarrow> World \<Rightarrow> World" where
  "cancelTask tid t w =
     (case cancel t of
        None \<Rightarrow> w
      | Some c \<Rightarrow> w\<lparr>cancelled := cancelled w @ [c],
                     tasks := AList.update tid (t\<lparr>cancel := None\<rparr>) (tasks w)\<rparr>)"

definition RemoveTask :: "clock \<Rightarrow> fault \<Rightarrow> string \<Rightarrow> World \<Rightarrow> bool \<times> World" where
  "RemoveTask clk flt tid w =
     (case map_of (tasks w) tid of
        None \<Rightarrow> (False, w)
      | Some t \<Rightarrow>
          let w1 = cancelTask tid t w;
              w2 = w1\<lparr>tasks := AList.delete tid (tasks w1)\<rparr>
          in (True, snd (saveToDiskLocked clk flt w2)))"

definition PauseTask :: "clock \<Rightarrow> fault \<Rightarrow> string \<Rightarrow> World \<Rightarrow> bool \<times> World" where
  "PauseTask clk flt tid w =
     (case map_of (tasks w) tid of
        None \<Rightarrow> (False, w)
      | Some t \<Rightarrow>
          if paused t then (True, w)
          else
            let w1 = cancelTask tid t w;
                w2 = w1\<lparr>tasks := AList.map_entry tid (\<lambda>t'. t'\<lparr>paused := True\<rparr>) (tasks w1)\<rparr>
            in (True, snd (saveToDiskLocked clk flt w2)))"

section \<open>The execution loop\<close>

text \<open>
  What one HTTP call comes to: \<open>http.NewRequest\<close> fails, \<open>client.Do\<close> fails, or a
  response arrives with its status line and a body that is \<open>nil\<close> or not.
\<close>

datatype http_outcome = BuildError | TransportError | Response string bool

datatype effect = SendRequest string string | DiscardBody | CloseBody | IncRunCount
  | Logged log_entry

definition executeOnce :: "Task \<Rightarrow> http_outcome \<Rightarrow> Task \<times> effect list" where
  "executeOnce t r =
     (case r of
        BuildError \<Rightarrow> (t, [Logged (LogBuildRequestError (ID t))])
      | TransportError \<Rightarrow>
          (t, [SendRequest (Method t) (URL t), Logged (LogRequestError (ID t))])
      | Response status body \<Rightarrow>
          let t' = t\<lparr>runCount := runCount t + 1\<rparr>
          in (t', [SendRequest (Method t) (URL t)]
                  @ (if body then [DiscardBody, CloseBody] else [])
                  @ [IncRunCount,
                     Logged (LogTaskResult (ID t) (Method t) (URL t) status (runCount t'))]))"

text \<open>
  The interval of the ticker of \<open>runTask\<close>:
  \<open>time.Duration(t.IntervalSeconds) * time.Second\<close>, a product of 64-bit integers that
  wraps around. \<open>time.NewTicker\<close> panics when it is not positive.
\<close>

definition tickerInterval :: "int \<Rightarrow> int" where
  "tickerInterval n = sint (word_of_int n * 1000000000 :: 64 word)"

text \<open>
  One turn of the \<open>select\<close> of \<open>runTask\<close>: the context is done, or the ticker fires and
  the call then made has the given outcome. \<open>runLoop\<close> follows the \<open>for\<close> loop along a
  finite list of turns; its first result tells whether the loop is still running at the
  end of the list, has returned, or never started because \<open>NewTicker\<close> panicked (a panic
  of a goroutine ends the whole process).
\<close>

datatype turn = CtxDone | Tick http_outcome

datatype loop_state = Running | Stopped | Panicked

fun runLoop :: "Task \<Rightarrow> turn list \<Rightarrow> loop_state \<times> Task \<times> effect list" where
  "runLoop t [] = (Running, t, [])"
| "runLoop t (CtxDone # rest) = (Stopped, t, [Logged (LogTaskStopped (ID t))])"
| "runLoop t (Tick r # rest) =
     (let (t1, es) = executeOnce t r;
          (st, t2, es') = runLoop t1 rest
      in (st, t2, es @ es'))"

definition runTask :: "Task \<Rightarrow> http_outcome \<Rightarrow> turn list \<Rightarrow> loop_state \<times> Task \<times> effect list" where
  "runTask t r0 turns =
     (let (t1, es) = executeOnce t r0 in
      if tickerInterval (IntervalSeconds t1) \<le> 0 then (Panicked, t1, es)
      else
        let (st, t2, es') = runLoop t1 turns
        in (st, t2, es @ es'))"

section \<open>Queries\<close>





text \<open>The start of \<open>main\<close>: a new scheduler, then \<open>loadFromDisk\<close>, whose error is logged.\<close>

definition startup :: "library \<Rightarrow> clock \<Rightarrow> bool \<Rightarrow> fault \<Rightarrow> stored \<Rightarrow> stored \<Rightarrow> World" where
  "startup L clk open_fails flt f g =
     (case loadFromDisk L clk open_fails flt (boot f g) of
        (None, w) \<Rightarrow> w
      | (Some e, w) \<Rightarrow> w\<lparr>logs := logs w @ [LogLoadError e]\<rparr>)"

section \<open>Notions used by the properties\<close>

text \<open>
  The worlds the program goes through: it starts with a new scheduler beside any file
  system, and then loads, adds, removes and pauses, under any clock, random source and
  write fault.
\<close>

inductive reachable :: "library \<Rightarrow> World \<Rightarrow> bool" for L where
  start: "reachable L (boot f g)"
| load: "reachable L w \<Longrightarrow> reachable L (snd (loadFromDisk L clk open_fails flt w))"
| add: "reachable L w \<Longrightarrow> reachable L (snd (AddTask L clk rnd flt req w))"
| remove: "reachable L w \<Longrightarrow> reachable L (snd (RemoveTask clk flt tid w))"
| pause: "reachable L w \<Longrightarrow> reachable L (snd (PauseTask clk flt tid w))"

text \<open>
  The entries that the restore is said to keep, in the words of the specification: the
  method normalizes (trim, uppercase) to GET or POST, the interval is at least 1 and the
  URL is not blank.
\<close>

definition normalize_method :: "library \<Rightarrow> string \<Rightarrow> string" where
  "normalize_method L m = ToUpper L (TrimSpace L m)"

definition valid_method :: "library \<Rightarrow> string \<Rightarrow> bool" where
  "valid_method L m \<longleftrightarrow> normalize_method L m = ''GET'' \<or> normalize_method L m = ''POST''"

definition valid_entry :: "library \<Rightarrow> persistedTask \<Rightarrow> bool" where
  "valid_entry L pt \<longleftrightarrow>
     valid_method L (p_Method pt) \<and> 1 \<le> p_IntervalSeconds pt \<and> TrimSpace L (p_URL pt) \<noteq> []"

text \<open>The tuple (id, intervalSeconds, url, method, description, enabled) of a task and of
  a persisted entry, and the tuples of a registry.\<close>

type_synonym tuple = "string \<times> int \<times> string \<times> string \<times> string \<times> bool"

definition task_tuple :: "Task \<Rightarrow> tuple" where
  "task_tuple t = (ID t, IntervalSeconds t, URL t, Method t, Description t, \<not> paused t)"

definition restored_tuple :: "library \<Rightarrow> persistedTask \<Rightarrow> tuple" where
  "restored_tuple L pt =
     (p_ID pt, p_IntervalSeconds pt, p_URL pt, normalize_method L (p_Method pt),
      p_Description pt, Enabled pt)"

definition registry_tuples :: "World \<Rightarrow> tuple set" where
  "registry_tuples w = (\<lambda>p. task_tuple (snd p)) ` set (tasks w)"

definition without_logs :: "World \<Rightarrow> World" where
  "without_logs w = w\<lparr>logs := []\<rparr>"

definition entry_tuple :: "persistedTask \<Rightarrow> tuple" where
  "entry_tuple pt =
     (p_ID pt, p_IntervalSeconds pt, p_URL pt, p_Method pt, p_Description pt, Enabled pt)"

text \<open>
  A task that comes back from the file as it is: its URL is not blank, its id, URL, method
  and description are strings that \<open>encoding/json\<close> leaves alone (valid UTF-8), and
  its method is one that trimming and upper-casing leave alone (as they leave \<open>GET\<close> and
  \<open>POST\<close>).
\<close>

definition survives :: "library \<Rightarrow> Task \<Rightarrow> bool" where
  "survives L t \<longleftrightarrow>
     TrimSpace L (URL t) \<noteq> [] \<and> jsonString L (ID t) = ID t \<and> jsonString L (URL t) = URL t
     \<and> jsonString L (Method t) = Method t \<and> jsonString L (Description t) = Description t
     \<and> normalize_method L (Method t) = Method t"


text \<open>The calls that \<open>runTask\<close> makes after the first one along a list of turns, and
  the counting of outcomes.\<close>

fun executed :: "turn list \<Rightarrow> http_outcome list" where
  "executed [] = []"
| "executed (CtxDone # rest) = []"
| "executed (Tick r # rest) = r # executed rest"

fun is_response :: "http_outcome \<Rightarrow> bool" where
  "is_response (Response status body) = True"
| "is_response r = False"

fun is_send :: "effect \<Rightarrow> bool" where
  "is_send (SendRequest m u) = True"
| "is_send e = False"

text \<open>
  The body of the restore loop for an entry that passes its checks, and the task that a
  successful \<open>AddTask\<close> leaves in the registry.
\<close>

definition restoreEntry :: "library \<Rightarrow> clock \<Rightarrow> nat \<Rightarrow> persistedTask \<Rightarrow> World \<Rightarrow> World" where
  "restoreEntry L clk restored pt w =
     (let t = \<lparr>ID = p_ID pt, IntervalSeconds = p_IntervalSeconds pt, URL = p_URL pt,
                Method = normalize_method L (p_Method pt), Description = p_Description pt,
                paused = (\<not> Enabled pt), startedAt = clk restored, runCount = 0,
                cancel = (if Enabled pt then Some (ctxSeq w) else None)\<rparr>
      in w\<lparr>ctxSeq := Suc (ctxSeq w),
           tasks := AList.update (p_ID pt) t (tasks w),
           loops := (if Enabled pt then loops w @ [(ctxSeq w, p_ID pt)] else loops w),
           cancelled := (if Enabled pt then cancelled w else cancelled w @ [ctxSeq w]),
           logs := logs w @
             [(if Enabled pt then LogRestoreRunning else LogRestorePaused)
                (p_ID pt) (normalize_method L (p_Method pt)) (p_URL pt) (p_IntervalSeconds pt)]\<rparr>)"

definition added_task ::
  "library \<Rightarrow> clock \<Rightarrow> (8 word \<times> 8 word) option \<Rightarrow> AddTaskReq \<Rightarrow> World \<Rightarrow> Task"
where
  "added_task L clk rnd req w =
     \<lparr>ID = fst (nextID (clk 0) rnd w), IntervalSeconds = req_IntervalSeconds req,
      URL = req_URL req, Method = normalize_method L (req_Method req),
      Description = TrimSpace L (req_Description req), paused = False, startedAt = clk 1,
      runCount = 0, cancel = Some (ctxSeq w)\<rparr>"

subsection \<open>Concrete inputs\<close>

text \<open>
  The library on ASCII text, for the concrete inputs below, which are all ASCII: the six
  ASCII white-space bytes are trimmed, \<open>a\<close>..\<open>z\<close> become \<open>A\<close>..\<open>Z\<close>, and a string is
  encoded and decoded as it is.
\<close>

definition isSpace :: "char \<Rightarrow> bool" where
  "isSpace c \<longleftrightarrow> c \<in> set [CHR 0x09, CHR 0x0A, CHR 0x0B, CHR 0x0C, CHR 0x0D, CHR '' '']"

definition ascii_TrimSpace :: "string \<Rightarrow> string" where
  "ascii_TrimSpace s = rev (dropWhile isSpace (rev (dropWhile isSpace s)))"

definition upper_char :: "char \<Rightarrow> char" where
  "upper_char c =
     (if CHR ''a'' \<le> c \<and> c \<le> CHR ''z'' then char_of (of_char c - (32::nat)) else c)"

definition ascii_ToUpper :: "string \<Rightarrow> string" where
  "ascii_ToUpper s = map upper_char s"

definition ascii :: library where
  "ascii = \<lparr>TrimSpace = ascii_TrimSpace, ToUpper = ascii_ToUpper, jsonString = (\<lambda>s. s)\<rparr>"

definition ex_time :: Time where
  "ex_time = \<lparr>Year = 2026, Month = 11, Day = 3, Hour = 4, Minute = 5, Second = 6,
     Nanosecond = 7000\<rparr>"

definition ex_clock :: clock where
  "ex_clock i = ex_time\<lparr>Second := 6 + int i\<rparr>"

definition ex_req :: "int \<Rightarrow> string \<Rightarrow> AddTaskReq" where
  "ex_req n u = \<lparr>req_IntervalSeconds = n, req_URL = u, req_Method = '' get '',
     req_Description = ''d''\<rparr>"

definition ex_task :: Task where
  "ex_task = \<lparr>ID = ''a'', IntervalSeconds = 5, URL = ''http://example.test/ping'',
     Method = ''GET'', Description = ''d'', paused = False, startedAt = ex_time, runCount = 7,
     cancel = Some 0\<rparr>"

definition ex_entry :: "string \<Rightarrow> string \<Rightarrow> bool \<Rightarrow> persistedTask" where
  "ex_entry i m e = \<lparr>p_ID = i, p_IntervalSeconds = 5, p_URL = ''http://example.test/ping'',
     p_Method = m, p_Description = ''d'', Enabled = e, CreatedAt = [], UpdatedAt = []\<rparr>"

text \<open>A world with one running task \<open>a\<close> and one paused task \<open>b\<close>.\<close>

definition ex_world :: World where
  "ex_world = \<lparr>tasks = [(''a'', ex_task),
       (''b'', ex_task\<lparr>ID := ''b'', paused := True, cancel := None\<rparr>)],
     idSeq = 2, port = 9000, target = Absent, tmpfile = Absent, ctxSeq = 2,
     loops = [(0, ''a''), (1, ''b'')], cancelled = [1], logs = []\<rparr>"

text \<open>The world after the first add in a new scheduler, and after pausing that task.\<close>

definition ex_id :: string where
  "ex_id = ''20261103T040506.000007000-1''"

definition ex_added :: World where
  "ex_added =
     snd (AddTask ascii ex_clock None NoFault (ex_req 5 ''http://example.test/ping'')
       (boot Absent Absent))"

definition ex_paused :: World where
  "ex_paused = snd (PauseTask ex_clock NoFault ex_id ex_added)"

text \<open>A file with an entry of method DELETE, a valid entry and a disabled one.\<close>

definition ex_file :: persistedFile where
  "ex_file = \<lparr>Version = 1, Port = 8080,
     Tasks = [ex_entry ''a'' ''DELETE'' True, ex_entry ''b'' '' get'' True,
       ex_entry ''c'' ''Post'' False]\<rparr>"

text \<open>The world after the restore of that file.\<close>

definition ex_loaded :: World where
  "ex_loaded = snd (loadFromDisk ascii ex_clock False NoFault (boot (Content ex_file) Absent))"

text \<open>
  The world after the restore of a file that holds the id which the first add generates
  from the random bytes 0a and ff, and after the restore of a file that holds the id
  \<open>x\<close> twice.
\<close>

definition ex_rid :: string where
  "ex_rid = ''20261103T040506.000007000-0aff-1''"

definition ex_restored :: World where
  "ex_restored =
     snd (loadFromDisk ascii ex_clock False NoFault
       (boot (Content \<lparr>Version = 1, Port = 9000, Tasks = [ex_entry ex_rid ''GET'' True]\<rparr>)
          Absent))"

definition ex_twice :: World where
  "ex_twice =
     snd (loadFromDisk ascii ex_clock False NoFault
       (boot (Content \<lparr>Version = 1, Port = 9000,
          Tasks = [ex_entry ''x'' ''GET'' True, ex_entry ''x'' ''GET'' True]\<rparr>) Absent))"

text \<open>The world after an add with an empty URL.\<close>

definition ex_blank :: World where
  "ex_blank = snd (AddTask ascii ex_clock None NoFault (ex_req 5 []) (boot Absent Absent))"

section \<open>Auxiliary facts\<close>

subsection \<open>Association lists\<close>

lemma set_delete: "set (AList.delete k al) = {p \<in> set al. fst p \<noteq> k}"
  by (induction al) auto

lemma set_update_subset: "set (AList.update k v al) \<subseteq> insert (k, v) (set al)"
  by (induction al) auto

lemma set_update_fresh: "k \<notin> fst ` set al \<Longrightarrow> set (AList.update k v al) = insert (k, v) (set al)"
  by (induction al) auto


lemma set_map_entry_other:
  "k' \<noteq> k \<Longrightarrow> (k', v') \<in> set (AList.map_entry k f al) \<longleftrightarrow> (k', v') \<in> set al"
  by (induction al) auto

lemma set_map_entry_subset:
  "set (AList.map_entry k f al) \<subseteq> set al \<union> {(k, f v) |v. (k, v) \<in> set al}"
  by (induction al) auto

lemma map_fst_map_entry: "map fst (AList.map_entry k f al) = map fst al"
  by (induction al) auto

subsection \<open>What the steps leave alone\<close>

lemma nextID_frame:
  "tasks (snd (nextID t rnd w)) = tasks w" "loops (snd (nextID t rnd w)) = loops w"
  "target (snd (nextID t rnd w)) = target w" "ctxSeq (snd (nextID t rnd w)) = ctxSeq w"
  "cancelled (snd (nextID t rnd w)) = cancelled w" "logs (snd (nextID t rnd w)) = logs w"
  "port (snd (nextID t rnd w)) = port w" "tmpfile (snd (nextID t rnd w)) = tmpfile w"
  by (auto simp: nextID_def Let_def split: option.splits prod.splits)

lemma atomicWriteJSON_frame:
  "tasks (snd (atomicWriteJSON flt v w)) = tasks w"
  "loops (snd (atomicWriteJSON flt v w)) = loops w"
  "ctxSeq (snd (atomicWriteJSON flt v w)) = ctxSeq w"
  "cancelled (snd (atomicWriteJSON flt v w)) = cancelled w"
  "logs (snd (atomicWriteJSON flt v w)) = logs w"
  "port (snd (atomicWriteJSON flt v w)) = port w"
  "idSeq (snd (atomicWriteJSON flt v w)) = idSeq w"
  by (auto simp: atomicWriteJSON_def split: fault.splits)

lemma atomicWriteJSON_result:
  "fst (atomicWriteJSON flt v w) = (if flt = NoFault then None else Some (ErrWrite flt))"
  by (auto simp: atomicWriteJSON_def split: fault.splits)

lemma atomicWriteJSON_target:
  "target (snd (atomicWriteJSON flt v w)) = (if flt = NoFault then Content v else target w)"
  by (auto simp: atomicWriteJSON_def split: fault.splits)

lemmas save_simps = saveToDiskLocked_def atomicWriteJSON_frame atomicWriteJSON_result
  atomicWriteJSON_target

lemma cancelTask_frame:
  "loops (cancelTask tid t w) = loops w" "target (cancelTask tid t w) = target w"
  "logs (cancelTask tid t w) = logs w" "ctxSeq (cancelTask tid t w) = ctxSeq w"
  "port (cancelTask tid t w) = port w" "idSeq (cancelTask tid t w) = idSeq w"
  by (auto simp: cancelTask_def split: option.splits)

lemma cancelTask_tasks:
  "tasks (cancelTask tid t w) =
     (case cancel t of None \<Rightarrow> tasks w | Some c \<Rightarrow> AList.update tid (t\<lparr>cancel := None\<rparr>) (tasks w))"
  by (auto simp: cancelTask_def split: option.splits)

lemma cancelTask_cancelled:
  "cancelled (cancelTask tid t w) = (case cancel t of None \<Rightarrow> cancelled w | Some c \<Rightarrow> cancelled w @ [c])"
  by (auto simp: cancelTask_def split: option.splits)

subsection \<open>A failed write in AddTask\<close>

lemma AddTask_write_fails:
  assumes "ToUpper L (TrimSpace L (req_Method req)) = ''GET'' \<or> ToUpper L (TrimSpace L (req_Method req)) = ''POST''"
    and "1 \<le> req_IntervalSeconds req" and "flt \<noteq> NoFault"
  shows "fst (AddTask L clk rnd flt req w) = Inl (ErrWrite flt)"
    and "tasks (snd (AddTask L clk rnd flt req w)) = AList.delete (fst (nextID (clk 0) rnd w)) (tasks w)"
    and "loops (snd (AddTask L clk rnd flt req w)) = loops w"
    and "target (snd (AddTask L clk rnd flt req w)) = target w"
    and "cancelled (snd (AddTask L clk rnd flt req w)) = cancelled w"
    and "ctxSeq (snd (AddTask L clk rnd flt req w)) = ctxSeq w"
  using assms
  by (auto simp: AddTask_def Let_def split_beta save_simps nextID_frame AList.delete_update_same)

subsection \<open>Restore\<close>

lemma restoreTasks_valid:
  "valid_entry L pt \<Longrightarrow>
     restoreTasks L clk n (pt # pts) w = restoreTasks L clk (Suc n) pts (restoreEntry L clk n pt w)"
  by (auto simp: valid_entry_def valid_method_def normalize_method_def restoreEntry_def Let_def AList.update_last)

lemma restoreTasks_invalid:
  "\<not> valid_entry L pt \<Longrightarrow>
     \<exists>l. restoreTasks L clk n (pt # pts) w = restoreTasks L clk n pts (w\<lparr>logs := logs w @ [l]\<rparr>)"
  by (auto simp: valid_entry_def valid_method_def normalize_method_def Let_def)

declare restoreTasks.simps(2) [simp del]

lemma restoreEntry_frame:
  "port (restoreEntry L clk n pt w) = port w" "idSeq (restoreEntry L clk n pt w) = idSeq w"
  "target (restoreEntry L clk n pt w) = target w" "tmpfile (restoreEntry L clk n pt w) = tmpfile w"
  "ctxSeq (restoreEntry L clk n pt w) = Suc (ctxSeq w)"
  by (simp_all add: restoreEntry_def Let_def)

lemma restoreEntry_tasks:
  "tasks (restoreEntry L clk n pt w) =
     AList.update (p_ID pt)
       \<lparr>ID = p_ID pt, IntervalSeconds = p_IntervalSeconds pt, URL = p_URL pt,
        Method = normalize_method L (p_Method pt), Description = p_Description pt,
        paused = (\<not> Enabled pt), startedAt = clk n, runCount = 0,
        cancel = (if Enabled pt then Some (ctxSeq w) else None)\<rparr> (tasks w)"
  by (simp add: restoreEntry_def Let_def)

lemma restoreEntry_without_logs:
  "without_logs w = without_logs w' \<Longrightarrow>
     without_logs (restoreEntry L clk n pt w) = without_logs (restoreEntry L clk n pt w')"
  by (cases w; cases w') (simp add: without_logs_def restoreEntry_def Let_def)

lemma without_logs_log [simp]: "without_logs (w\<lparr>logs := l\<rparr>) = without_logs w"
  by (simp add: without_logs_def)

lemma restoreTasks_filter_gen:
  "without_logs w = without_logs w' \<Longrightarrow>
     without_logs (snd (restoreTasks L clk n pts w)) =
       without_logs (snd (restoreTasks L clk n (filter (valid_entry L) pts) w'))
     \<and> fst (restoreTasks L clk n pts w) = fst (restoreTasks L clk n (filter (valid_entry L) pts) w')"
proof (induction pts arbitrary: n w w')
  case Nil
  then show ?case by simp
next
  case (Cons pt pts)
  show ?case
  proof (cases "valid_entry L pt")
    case True
    from Cons.prems have "without_logs (restoreEntry L clk n pt w) = without_logs (restoreEntry L clk n pt w')"
      by (rule restoreEntry_without_logs)
    from Cons.IH [OF this] True show ?thesis
      by (simp add: restoreTasks_valid)
  next
    case False
    from restoreTasks_invalid [OF False] obtain l where
      l: "restoreTasks L clk n (pt # pts) w = restoreTasks L clk n pts (w\<lparr>logs := logs w @ [l]\<rparr>)"
      by blast
    have "without_logs (w\<lparr>logs := logs w @ [l]\<rparr>) = without_logs w'"
      using Cons.prems by simp
    from Cons.IH [OF this] False show ?thesis
      by (simp add: l)
  qed
qed

lemma restoreTasks_count:
  "fst (restoreTasks L clk n pts w) = n + length (filter (valid_entry L) pts)"
proof (induction pts arbitrary: n w)
  case Nil
  show ?case by simp
next
  case (Cons pt pts)
  show ?case
  proof (cases "valid_entry L pt")
    case True
    then show ?thesis by (simp add: restoreTasks_valid Cons.IH)
  next
    case False
    from restoreTasks_invalid [OF False] obtain l where
      "restoreTasks L clk n (pt # pts) w = restoreTasks L clk n pts (w\<lparr>logs := logs w @ [l]\<rparr>)"
      by blast
    with False show ?thesis by (simp add: Cons.IH)
  qed
qed

lemma restoreTasks_keys:
  "fst ` set (tasks (snd (restoreTasks L clk n pts w))) =
     fst ` set (tasks w) \<union> p_ID ` set (filter (valid_entry L) pts)"
proof (induction pts arbitrary: n w)
  case Nil
  show ?case by simp
next
  case (Cons pt pts)
  show ?case
  proof (cases "valid_entry L pt")
    case True
    then show ?thesis
      by (simp add: restoreTasks_valid Cons.IH restoreEntry_tasks AList.dom_update)
  next
    case False
    from restoreTasks_invalid [OF False] obtain l where
      "restoreTasks L clk n (pt # pts) w = restoreTasks L clk n pts (w\<lparr>logs := logs w @ [l]\<rparr>)"
      by blast
    with False show ?thesis by (simp add: Cons.IH)
  qed
qed

lemma restoreTasks_distinct:
  "distinct (map fst (tasks w)) \<Longrightarrow> distinct (map fst (tasks (snd (restoreTasks L clk n pts w))))"
proof (induction pts arbitrary: n w)
  case Nil
  then show ?case by simp
next
  case (Cons pt pts)
  show ?case
  proof (cases "valid_entry L pt")
    case True
    have "distinct (map fst (tasks (restoreEntry L clk n pt w)))"
      unfolding restoreEntry_tasks using Cons.prems by (rule AList.distinct_update)
    from Cons.IH [OF this] True show ?thesis by (simp add: restoreTasks_valid)
  next
    case False
    from restoreTasks_invalid [OF False] obtain l where
      l: "restoreTasks L clk n (pt # pts) w = restoreTasks L clk n pts (w\<lparr>logs := logs w @ [l]\<rparr>)"
      by blast
    have "distinct (map fst (tasks (w\<lparr>logs := logs w @ [l]\<rparr>)))" using Cons.prems by simp
    from Cons.IH [OF this] show ?thesis by (simp add: l)
  qed
qed

text \<open>Every entry of the registry after a restore was there before or is the task made from a valid entry of the file.\<close>

lemma restoreTasks_entries:
  assumes "(k, t) \<in> set (tasks (snd (restoreTasks L clk n pts w)))"
  shows "(k, t) \<in> set (tasks w) \<or>
     (\<exists>pt \<in> set pts. valid_entry L pt \<and> k = p_ID pt \<and> task_tuple t = restored_tuple L pt
        \<and> (paused t \<longleftrightarrow> cancel t = None))"
  using assms
proof (induction pts arbitrary: n w)
  case Nil
  then show ?case by simp
next
  case (Cons pt pts)
  show ?case
  proof (cases "valid_entry L pt")
    case True
    with Cons.prems have "(k, t) \<in> set (tasks (snd (restoreTasks L clk (Suc n) pts (restoreEntry L clk n pt w))))"
      by (simp add: restoreTasks_valid)
    from Cons.IH [OF this] show ?thesis
    proof
      assume "(k, t) \<in> set (tasks (restoreEntry L clk n pt w))"
      then have "(k, t) \<in> set (tasks w) \<or>
        (k = p_ID pt \<and> t = \<lparr>ID = p_ID pt, IntervalSeconds = p_IntervalSeconds pt, URL = p_URL pt,
        Method = normalize_method L (p_Method pt), Description = p_Description pt,
        paused = (\<not> Enabled pt), startedAt = clk n, runCount = 0,
        cancel = (if Enabled pt then Some (ctxSeq w) else None)\<rparr>)"
        using set_update_subset unfolding restoreEntry_tasks by fastforce
      then show ?thesis
      proof
        assume "(k, t) \<in> set (tasks w)"
        then show ?thesis by simp
      next
        assume kt: "k = p_ID pt \<and> t = \<lparr>ID = p_ID pt, IntervalSeconds = p_IntervalSeconds pt, URL = p_URL pt,
          Method = normalize_method L (p_Method pt), Description = p_Description pt,
          paused = (\<not> Enabled pt), startedAt = clk n, runCount = 0,
          cancel = (if Enabled pt then Some (ctxSeq w) else None)\<rparr>"
        then have "task_tuple t = restored_tuple L pt" "paused t \<longleftrightarrow> cancel t = None"
          by (simp_all add: task_tuple_def restored_tuple_def)
        with kt True have "\<exists>pt' \<in> set (pt # pts). valid_entry L pt' \<and> k = p_ID pt'
            \<and> task_tuple t = restored_tuple L pt' \<and> (paused t \<longleftrightarrow> cancel t = None)"
          by (intro bexI [of _ pt]) simp_all
        then show ?thesis by blast
      qed
    next
      assume "\<exists>pt\<in>set pts. valid_entry L pt \<and> k = p_ID pt \<and> task_tuple t = restored_tuple L pt
        \<and> (paused t \<longleftrightarrow> cancel t = None)"
      then have "\<exists>pt\<in>set (pt # pts). valid_entry L pt \<and> k = p_ID pt \<and> task_tuple t = restored_tuple L pt
        \<and> (paused t \<longleftrightarrow> cancel t = None)" by simp
      then show ?thesis by blast
    qed
  next
    case False
    from restoreTasks_invalid [OF False] obtain l where
      "restoreTasks L clk n (pt # pts) w = restoreTasks L clk n pts (w\<lparr>logs := logs w @ [l]\<rparr>)"
      by blast
    with Cons.prems have "(k, t) \<in> set (tasks (snd (restoreTasks L clk n pts (w\<lparr>logs := logs w @ [l]\<rparr>))))"
      by simp
    from Cons.IH [OF this] show ?thesis
    proof
      assume "(k, t) \<in> set (tasks (w\<lparr>logs := logs w @ [l]\<rparr>))"
      then show ?thesis by simp
    next
      assume "\<exists>pt\<in>set pts. valid_entry L pt \<and> k = p_ID pt \<and> task_tuple t = restored_tuple L pt
        \<and> (paused t \<longleftrightarrow> cancel t = None)"
      then have "\<exists>pt\<in>set (pt # pts). valid_entry L pt \<and> k = p_ID pt \<and> task_tuple t = restored_tuple L pt
        \<and> (paused t \<longleftrightarrow> cancel t = None)" by simp
      then show ?thesis by blast
    qed
  qed
qed

text \<open>Valid entries with distinct fresh ids all end up in the registry.\<close>

lemma restoreTasks_tuples:
  assumes "list_all (valid_entry L) pts" "distinct (map p_ID pts)"
    "p_ID ` set pts \<inter> fst ` set (tasks w) = {}"
  shows "registry_tuples (snd (restoreTasks L clk n pts w)) = registry_tuples w \<union> restored_tuple L ` set pts"
  using assms
proof (induction pts arbitrary: n w)
  case Nil
  then show ?case by simp
next
  case (Cons pt pts)
  let ?w = "restoreEntry L clk n pt w"
  from Cons.prems have v: "valid_entry L pt" and fresh: "p_ID pt \<notin> fst ` set (tasks w)" by auto
  have keys: "fst ` set (tasks ?w) = insert (p_ID pt) (fst ` set (tasks w))"
    by (simp add: restoreEntry_tasks AList.dom_update)
  have "p_ID ` set pts \<inter> fst ` set (tasks ?w) = {}"
    using Cons.prems unfolding keys by auto
  with Cons.prems Cons.IH [of ?w "Suc n"]
  have "registry_tuples (snd (restoreTasks L clk (Suc n) pts ?w)) = registry_tuples ?w \<union> restored_tuple L ` set pts"
    by simp
  moreover have "registry_tuples ?w = insert (restored_tuple L pt) (registry_tuples w)"
    by (simp add: registry_tuples_def restoreEntry_tasks set_update_fresh [OF fresh]
        task_tuple_def restored_tuple_def)
  ultimately show ?case using v by (simp add: restoreTasks_valid)
qed

subsection \<open>The operations on the registry\<close>

lemma PauseTask_paused:
  "map_of (tasks w) tid = Some t \<Longrightarrow> paused t \<Longrightarrow> PauseTask clk flt tid w = (True, w)"
  by (simp add: PauseTask_def)

lemma PauseTask_lookup:
  assumes "map_of (tasks w) tid = Some t" "\<not> paused t"
  shows "map_of (tasks (snd (PauseTask clk flt tid w))) tid = Some (t\<lparr>cancel := None, paused := True\<rparr>)"
  using assms
  by (auto simp: PauseTask_def Let_def save_simps cancelTask_tasks AList.map_of_map_entry
      AList.update_conv' split: option.splits)

lemma snapshot_cong: "tasks w = tasks w' \<Longrightarrow> port w = port w' \<Longrightarrow> snapshot clk w = snapshot clk w'"
  by (simp add: snapshot_def)

lemma map_entry_update: "AList.map_entry k f (AList.update k v al) = AList.update k (f v) al"
  by (induction al) auto

lemma map_entry_as_update:
  "map_of al k = Some v \<Longrightarrow> AList.map_entry k f al = AList.update k (f v) al"
  by (induction al) auto

lemma PauseTask_tasks:
  assumes "map_of (tasks w) tid = Some t" "\<not> paused t"
  shows "tasks (snd (PauseTask clk flt tid w)) =
     AList.update tid (t\<lparr>cancel := None, paused := True\<rparr>) (tasks w)"
proof (cases "cancel t")
  case None
  then have e: "t\<lparr>cancel := None, paused := True\<rparr> = t\<lparr>paused := True\<rparr>"
    by (cases t) simp
  have "tasks (snd (PauseTask clk flt tid w)) = AList.update tid (t\<lparr>paused := True\<rparr>) (tasks w)"
    using assms None
    by (simp add: PauseTask_def Let_def save_simps cancelTask_tasks map_entry_as_update [OF assms(1)])
  then show ?thesis by (simp only: e)
next
  case (Some c)
  with assms show ?thesis
    by (simp add: PauseTask_def Let_def save_simps cancelTask_tasks map_entry_update)
qed

lemma PauseTask_entries:
  assumes "(k, t') \<in> set (tasks (snd (PauseTask clk flt tid w)))"
  shows "(k, t') \<in> set (tasks w) \<or>
     (\<exists>t. (k, t) \<in> set (tasks w) \<and> t' = t\<lparr>cancel := None, paused := True\<rparr>)"
proof (cases "map_of (tasks w) tid")
  case None
  with assms show ?thesis by (simp add: PauseTask_def)
next
  case (Some t)
  show ?thesis
  proof (cases "paused t")
    case True
    with Some assms show ?thesis by (simp add: PauseTask_def)
  next
    case False
    from assms have "(k, t') \<in> insert (tid, t\<lparr>cancel := None, paused := True\<rparr>) (set (tasks w))"
      unfolding PauseTask_tasks [OF Some False] using set_update_subset by fastforce
    moreover have "(tid, t) \<in> set (tasks w)" using Some by (rule map_of_SomeD)
    ultimately show ?thesis by blast
  qed
qed

lemma RemoveTask_tasks:
  "tasks (snd (RemoveTask clk flt tid w)) = AList.delete tid (tasks w)"
proof (cases "map_of (tasks w) tid")
  case None
  then have "tid \<notin> fst ` set (tasks w)" by (simp add: map_of_eq_None_iff)
  with None show ?thesis by (simp add: RemoveTask_def)
next
  case (Some t)
  then show ?thesis
    by (simp add: RemoveTask_def Let_def save_simps cancelTask_tasks AList.delete_update_same
        split: option.splits)
qed

lemma AddTask_invalid:
  assumes "\<not> (normalize_method L (req_Method req) = ''GET'' \<or> normalize_method L (req_Method req) = ''POST'')
      \<or> req_IntervalSeconds req < 1"
  shows "snd (AddTask L clk rnd flt req w) = w"
  using assms by (auto simp: AddTask_def Let_def normalize_method_def)

lemma AddTask_ok:
  assumes "normalize_method L (req_Method req) = ''GET'' \<or> normalize_method L (req_Method req) = ''POST''"
    and "1 \<le> req_IntervalSeconds req"
  shows "fst (AddTask L clk rnd NoFault req w) = Inr (fst (nextID (clk 0) rnd w))"
    and "tasks (snd (AddTask L clk rnd NoFault req w)) =
      AList.update (fst (nextID (clk 0) rnd w)) (added_task L clk rnd req w) (tasks w)"
    and "loops (snd (AddTask L clk rnd NoFault req w)) = loops w @ [(ctxSeq w, fst (nextID (clk 0) rnd w))]"
    and "ctxSeq (snd (AddTask L clk rnd NoFault req w)) = Suc (ctxSeq w)"
  using assms
  by (auto simp: AddTask_def Let_def split_beta save_simps nextID_frame AList.update_last
      added_task_def normalize_method_def)

lemma AddTask_entries:
  assumes "(k, t) \<in> set (tasks (snd (AddTask L clk rnd flt req w)))"
  shows "(k, t) \<in> set (tasks w) \<or>
     (t = added_task L clk rnd req w \<and> k = ID t
      \<and> (normalize_method L (req_Method req) = ''GET'' \<or> normalize_method L (req_Method req) = ''POST'')
      \<and> 1 \<le> req_IntervalSeconds req)"
proof (cases "(normalize_method L (req_Method req) = ''GET'' \<or> normalize_method L (req_Method req) = ''POST'')
    \<and> 1 \<le> req_IntervalSeconds req")
  case False
  then have "snd (AddTask L clk rnd flt req w) = w"
    by (intro AddTask_invalid) auto
  with assms show ?thesis by simp
next
  case True
  then have m: "normalize_method L (req_Method req) = ''GET'' \<or> normalize_method L (req_Method req) = ''POST''"
    and i: "1 \<le> req_IntervalSeconds req" by simp_all
  show ?thesis
  proof (cases "flt = NoFault")
    case True
    with assms have "(k, t) \<in> insert (fst (nextID (clk 0) rnd w), added_task L clk rnd req w) (set (tasks w))"
      unfolding True AddTask_ok(2) [OF m i] using set_update_subset by fastforce
    then show ?thesis using m i by (auto simp: added_task_def)
  next
    case False
    from m have "ToUpper L (TrimSpace L (req_Method req)) = ''GET'' \<or> ToUpper L (TrimSpace L (req_Method req)) = ''POST''"
      by (simp add: normalize_method_def)
    from AddTask_write_fails(2) [OF this i False] assms show ?thesis
      by (simp add: set_delete)
  qed
qed

lemma loadFromDisk_tasks:
  "tasks (snd (loadFromDisk L clk open_fails flt w)) =
     (case target w of
        Content v \<Rightarrow> if open_fails then tasks w
          else tasks (snd (restoreTasks L clk 0 (map (decodeTask L) (Tasks v))
            ((if Port v > 0 then w\<lparr>port := Port v\<rparr> else w)
               \<lparr>logs := logs w @ [LogUsingPort (if Port v > 0 then Port v else port w)]\<rparr>)))
      | _ \<Rightarrow> tasks w)"
  by (auto simp: loadFromDisk_def decodeFile_def Let_def split_beta atomicWriteJSON_frame
      split: stored.splits)

lemma loadFromDisk_entries:
  assumes "(k, t) \<in> set (tasks (snd (loadFromDisk L clk open_fails flt w)))"
  shows "(k, t) \<in> set (tasks w) \<or>
     (\<exists>pt. valid_entry L pt \<and> k = p_ID pt \<and> task_tuple t = restored_tuple L pt
        \<and> (paused t \<longleftrightarrow> cancel t = None))"
proof (cases "target w")
  case (Content pf)
  show ?thesis
  proof (cases open_fails)
    case True
    with assms Content show ?thesis by (simp add: loadFromDisk_tasks)
  next
    case False
    with assms Content restoreTasks_entries [of k t L clk 0 "map (decodeTask L) (Tasks pf)"]
    show ?thesis by (fastforce simp: loadFromDisk_tasks split: if_splits)
  qed
qed (use assms in \<open>simp_all add: loadFromDisk_tasks\<close>)

lemma reachable_entries:
  assumes "reachable L w"
    and restored: "\<And>pt t. valid_entry L pt \<Longrightarrow> task_tuple t = restored_tuple L pt \<Longrightarrow>
        (paused t \<longleftrightarrow> cancel t = None) \<Longrightarrow> Q (p_ID pt, t)"
    and added: "\<And>clk rnd req w.
        normalize_method L (req_Method req) = ''GET'' \<or> normalize_method L (req_Method req) = ''POST'' \<Longrightarrow>
        1 \<le> req_IntervalSeconds req \<Longrightarrow>
        Q (ID (added_task L clk rnd req w), added_task L clk rnd req w)"
    and pausing: "\<And>k t. Q (k, t) \<Longrightarrow> Q (k, t\<lparr>cancel := None, paused := True\<rparr>)"
  shows "\<forall>p \<in> set (tasks w). Q p"
  using assms(1)
proof (induction rule: reachable.induct)
  case (start f g)
  show ?case by (simp add: boot_def NewScheduler_def)
next
  case (load w clk open_fails flt)
  show ?case
  proof
    fix p assume "p \<in> set (tasks (snd (loadFromDisk L clk open_fails flt w)))"
    then have "(fst p, snd p) \<in> set (tasks (snd (loadFromDisk L clk open_fails flt w)))" by simp
    from loadFromDisk_entries [OF this] load.IH restored [of _ "snd p"]
    show "Q p" by (metis prod.collapse)
  qed
next
  case (add w clk rnd flt req)
  show ?case
  proof
    fix p assume "p \<in> set (tasks (snd (AddTask L clk rnd flt req w)))"
    then have "(fst p, snd p) \<in> set (tasks (snd (AddTask L clk rnd flt req w)))" by simp
    from AddTask_entries [OF this] add.IH added [of req clk rnd w]
    show "Q p" by (metis prod.collapse)
  qed
next
  case (remove w clk flt tid)
  then show ?case by (simp add: RemoveTask_tasks set_delete)
next
  case (pause w clk flt tid)
  show ?case
  proof
    fix p assume "p \<in> set (tasks (snd (PauseTask clk flt tid w)))"
    then have "(fst p, snd p) \<in> set (tasks (snd (PauseTask clk flt tid w)))" by simp
    from PauseTask_entries [OF this] pause.IH pausing
    show "Q p" by (metis prod.collapse)
  qed
qed

lemma reachable_distinct:
  assumes "reachable L w"
  shows "distinct (map fst (tasks w))"
  using assms
proof (induction rule: reachable.induct)
  case (start f g)
  show ?case by (simp add: boot_def NewScheduler_def)
next
  case (load w clk open_fails flt)
  then show ?case
    by (auto simp: loadFromDisk_tasks restoreTasks_distinct split: stored.splits)
next
  case (add w clk rnd flt req)
  show ?case
  proof (cases "(normalize_method L (req_Method req) = ''GET'' \<or> normalize_method L (req_Method req) = ''POST'')
    \<and> 1 \<le> req_IntervalSeconds req")
    case False
    then have "snd (AddTask L clk rnd flt req w) = w"
      by (intro AddTask_invalid) auto
    with add.IH show ?thesis by simp
  next
    case True
    then have m: "normalize_method L (req_Method req) = ''GET'' \<or> normalize_method L (req_Method req) = ''POST''"
      and i: "1 \<le> req_IntervalSeconds req" by simp_all
    show ?thesis
    proof (cases "flt = NoFault")
      case True
      show ?thesis unfolding True AddTask_ok(2) [OF m i]
        using add.IH by (rule AList.distinct_update)
    next
      case False
      from m have "ToUpper L (TrimSpace L (req_Method req)) = ''GET'' \<or> ToUpper L (TrimSpace L (req_Method req)) = ''POST''"
        by (simp add: normalize_method_def)
      from AddTask_write_fails(2) [OF this i False] add.IH show ?thesis
        by (simp add: AList.distinct_delete)
    qed
  qed
next
  case (remove w clk flt tid)
  then show ?case by (simp add: RemoveTask_tasks AList.distinct_delete)
next
  case (pause w clk flt tid)
  show ?case
  proof (cases "map_of (tasks w) tid")
    case None
    with pause.IH show ?thesis by (simp add: PauseTask_def)
  next
    case (Some t)
    show ?thesis
    proof (cases "paused t")
      case True
      with Some pause.IH show ?thesis by (simp add: PauseTask_def)
    next
      case False
      show ?thesis unfolding PauseTask_tasks [OF Some False]
        using pause.IH by (rule AList.distinct_update)
    qed
  qed
qed


lemma delete_same_iff: "AList.delete k al = al \<longleftrightarrow> k \<notin> fst ` set al"
  by (metis AList.delete_notin_dom AList.delete_id)

lemma persistTasks_cong:
  "map (\<lambda>t. t\<lparr>cancel := None\<rparr>) ts = map (\<lambda>t. t\<lparr>cancel := None\<rparr>) ts' \<Longrightarrow>
     persistTasks clk k now ts = persistTasks clk k now ts'"
proof (induction ts arbitrary: ts' k)
  case Nil
  then show ?case by simp
next
  case (Cons t ts)
  then obtain t' ts'' where ts': "ts' = t' # ts''" by (cases ts') auto
  with Cons.prems have e: "t\<lparr>cancel := None\<rparr> = t'\<lparr>cancel := None\<rparr>"
    and r: "map (\<lambda>t. t\<lparr>cancel := None\<rparr>) ts = map (\<lambda>t. t\<lparr>cancel := None\<rparr>) ts''" by simp_all
  from e have f: "ID t = ID t'" "IntervalSeconds t = IntervalSeconds t'" "URL t = URL t'"
    "Method t = Method t'" "Description t = Description t'" "paused t = paused t'"
    "startedAt t = startedAt t'"
    by (cases t; cases t'; simp)+
  show ?case unfolding ts' by (simp add: f Let_def Cons.IH [OF r])
qed

lemma update_cancel_cong:
  "map ((\<lambda>t. t\<lparr>cancel := None\<rparr>) \<circ> snd) (AList.update k (t\<lparr>cancel := c\<rparr>) al) =
     map ((\<lambda>t. t\<lparr>cancel := None\<rparr>) \<circ> snd) (AList.update k t al)"
  by (induction al) auto

lemma snapshot_update_cancel:
  assumes "tasks w' = AList.update k (t\<lparr>cancel := c\<rparr>) al" "tasks w = AList.update k t al"
    "port w' = port w"
  shows "snapshot clk w' = snapshot clk w"
proof -
  have "map (\<lambda>t. t\<lparr>cancel := None\<rparr>) (map snd (tasks w')) =
      map (\<lambda>t. t\<lparr>cancel := None\<rparr>) (map snd (tasks w))"
    using update_cancel_cong [where k = k and t = t and c = c and al = al] by (simp add: assms)
  then have "persistTasks clk 1 (format_RFC3339Nano (clk 0)) (map snd (tasks w')) =
      persistTasks clk 1 (format_RFC3339Nano (clk 0)) (map snd (tasks w))"
    by (rule persistTasks_cong)
  then show ?thesis by (simp add: snapshot_def assms(3))
qed

lemma AddTask_ok_target:
  assumes "normalize_method L (req_Method req) = ''GET'' \<or> normalize_method L (req_Method req) = ''POST''"
    and "1 \<le> req_IntervalSeconds req"
  shows "target (snd (AddTask L clk rnd NoFault req w)) =
     Content (snapshot (\<lambda>i. clk (i + 2)) (snd (AddTask L clk rnd NoFault req w)))"
proof -
  let ?tid = "fst (nextID (clk 0) rnd w)"
  let ?t = "(added_task L clk rnd req w)\<lparr>cancel := None\<rparr>"
  let ?w2 = "(snd (nextID (clk 0) rnd w))\<lparr>tasks := AList.update ?tid ?t (tasks w)\<rparr>"
  have a: "target (snd (AddTask L clk rnd NoFault req w)) = Content (snapshot (\<lambda>i. clk (i + 2)) ?w2)"
    using assms
    by (auto simp: AddTask_def Let_def split_beta save_simps nextID_frame added_task_def
        normalize_method_def)
  have b: "added_task L clk rnd req w = ?t\<lparr>cancel := Some (ctxSeq w)\<rparr>"
    by (simp add: added_task_def)
  have "snapshot (\<lambda>i. clk (i + 2)) (snd (AddTask L clk rnd NoFault req w)) =
      snapshot (\<lambda>i. clk (i + 2)) ?w2"
  proof (rule snapshot_update_cancel)
    show "tasks (snd (AddTask L clk rnd NoFault req w)) =
        AList.update ?tid (?t\<lparr>cancel := Some (ctxSeq w)\<rparr>) (tasks w)"
      unfolding b [symmetric] using assms by (rule AddTask_ok(2))
    show "tasks ?w2 = AList.update ?tid ?t (tasks w)" by simp
    show "port (snd (AddTask L clk rnd NoFault req w)) = port ?w2"
      using assms
      by (auto simp: AddTask_def Let_def split_beta save_simps nextID_frame normalize_method_def)
  qed
  with a show ?thesis by simp
qed

section \<open>Add and a failed write\<close>

text \<open>
  C1, amended. A valid add request whose snapshot write fails returns the error of the
  write, and the entry stored under the generated id is deleted again: afterwards no task
  is stored under that id, nothing is in the registry that was not there before, no loop
  is started, no context is created or cancelled and \<open>config.json\<close> is as before. The
  registry is the one before the call exactly when the generated id was not already a
  key; a task that was stored under the same id is deleted with the new one.
\<close>

theorem AddTask_rolls_back_failed_write:
  assumes "valid_method L (req_Method req)"
    and "1 \<le> req_IntervalSeconds req"
    and "flt \<noteq> NoFault"
  shows "fst (AddTask L clk rnd flt req w) = Inl (ErrWrite flt)
     \<and> tasks (snd (AddTask L clk rnd flt req w)) = AList.delete (fst (nextID (clk 0) rnd w)) (tasks w)
     \<and> fst (nextID (clk 0) rnd w) \<notin> fst ` set (tasks (snd (AddTask L clk rnd flt req w)))
     \<and> set (tasks (snd (AddTask L clk rnd flt req w))) \<subseteq> set (tasks w)
     \<and> (tasks (snd (AddTask L clk rnd flt req w)) = tasks w
          \<longleftrightarrow> fst (nextID (clk 0) rnd w) \<notin> fst ` set (tasks w))
     \<and> loops (snd (AddTask L clk rnd flt req w)) = loops w
     \<and> ctxSeq (snd (AddTask L clk rnd flt req w)) = ctxSeq w
     \<and> cancelled (snd (AddTask L clk rnd flt req w)) = cancelled w
     \<and> target (snd (AddTask L clk rnd flt req w)) = target w"
proof -
  have m: "ToUpper L (TrimSpace L (req_Method req)) = ''GET''
      \<or> ToUpper L (TrimSpace L (req_Method req)) = ''POST''"
    using assms(1) by (simp add: valid_method_def normalize_method_def)
  note f = AddTask_write_fails [OF m assms(2) assms(3), of clk rnd w]
  have "fst (nextID (clk 0) rnd w) \<notin> fst ` set (AList.delete (fst (nextID (clk 0) rnd w)) (tasks w))"
    by (rule AList.delete_notin_dom)
  moreover have "set (AList.delete (fst (nextID (clk 0) rnd w)) (tasks w)) \<subseteq> set (tasks w)"
    by (auto simp: set_delete)
  ultimately show ?thesis
    by (simp add: f delete_same_iff)
qed

text \<open>The theorem at a failing rename of the temporary file, in a world with two tasks
  whose ids differ from the generated one.\<close>

theorem AddTask_rolls_back_failed_write_witness:
  "fst (AddTask ascii ex_clock None RenameFails (ex_req 5 ''http://example.test/ping'') ex_world)
     = Inl (ErrWrite RenameFails)
   \<and> tasks (snd (AddTask ascii ex_clock None RenameFails (ex_req 5 ''http://example.test/ping'')
        ex_world)) = tasks ex_world"
proof -
  have m: "valid_method ascii (req_Method (ex_req 5 ''http://example.test/ping''))"
    by code_simp
  have i: "1 \<le> req_IntervalSeconds (ex_req 5 ''http://example.test/ping'')"
    by code_simp
  have f: "RenameFails \<noteq> NoFault" by simp
  have fresh: "fst (nextID (ex_clock 0) None ex_world) \<notin> fst ` set (tasks ex_world)"
    by code_simp
  from AddTask_rolls_back_failed_write [OF m i f, of ex_clock None ex_world] fresh
  show ?thesis by blast
qed

text \<open>
  The registry is not always the one before the call: after the restore of a file that
  holds the id which the add generates, the failed add deletes the restored task, whose
  loop goes on.
\<close>

theorem AddTask_failed_write_deletes_restored_task:
  "map fst (tasks ex_restored) = [ex_rid]
   \<and> fst (nextID (ex_clock 0) (Some (0x0A, 0xFF)) ex_restored) = ex_rid
   \<and> fst (AddTask ascii ex_clock (Some (0x0A, 0xFF)) RenameFails
        (ex_req 5 ''http://example.test/ping'') ex_restored) = Inl (ErrWrite RenameFails)
   \<and> tasks (snd (AddTask ascii ex_clock (Some (0x0A, 0xFF)) RenameFails
        (ex_req 5 ''http://example.test/ping'') ex_restored)) = []
   \<and> loops (snd (AddTask ascii ex_clock (Some (0x0A, 0xFF)) RenameFails
        (ex_req 5 ''http://example.test/ping'') ex_restored)) = [(0, ex_rid)]
   \<and> cancelled (snd (AddTask ascii ex_clock (Some (0x0A, 0xFF)) RenameFails
        (ex_req 5 ''http://example.test/ping'') ex_restored)) = []"
  by code_simp

section \<open>Add validates the interval\<close>

text \<open>
  C3, amended. An add request whose intervalSeconds is below 1 is rejected by \<open>AddTask\<close>
  with a validation error before any state change: the world (task map, file, loops,
  counters) is the one before the call. There is no upper bound: a request with a valid
  method gets the interval error exactly when its interval is below 1, and with any
  interval from 1 on, also above 86400, it is inserted, persisted and started when the
  write succeeds.
\<close>

theorem AddTask_interval_check:
  "(req_IntervalSeconds req < 1 \<longrightarrow>
      snd (AddTask L clk rnd flt req w) = w
      \<and> (fst (AddTask L clk rnd flt req w) = Inl ErrInterval
         \<or> fst (AddTask L clk rnd flt req w) = Inl ErrMethod))
   \<and> (valid_method L (req_Method req) \<longrightarrow>
        (fst (AddTask L clk rnd flt req w) = Inl ErrInterval \<longleftrightarrow> req_IntervalSeconds req < 1))
   \<and> (valid_method L (req_Method req) \<and> 1 \<le> req_IntervalSeconds req \<longrightarrow>
        fst (AddTask L clk rnd NoFault req w) = Inr (fst (nextID (clk 0) rnd w))
        \<and> map_of (tasks (snd (AddTask L clk rnd NoFault req w))) (fst (nextID (clk 0) rnd w))
            = Some (added_task L clk rnd req w)
        \<and> IntervalSeconds (added_task L clk rnd req w) = req_IntervalSeconds req
        \<and> loops (snd (AddTask L clk rnd NoFault req w))
            = loops w @ [(ctxSeq w, fst (nextID (clk 0) rnd w))]
        \<and> target (snd (AddTask L clk rnd NoFault req w))
            = Content (snapshot (\<lambda>i. clk (i + 2)) (snd (AddTask L clk rnd NoFault req w))))"
proof (intro conjI impI)
  assume "req_IntervalSeconds req < 1"
  then show "snd (AddTask L clk rnd flt req w) = w"
    and "fst (AddTask L clk rnd flt req w) = Inl ErrInterval
         \<or> fst (AddTask L clk rnd flt req w) = Inl ErrMethod"
    by (auto simp: AddTask_def Let_def)
next
  assume "valid_method L (req_Method req)"
  then have m: "ToUpper L (TrimSpace L (req_Method req)) = ''GET''
      \<or> ToUpper L (TrimSpace L (req_Method req)) = ''POST''"
    by (simp add: valid_method_def normalize_method_def)
  show "fst (AddTask L clk rnd flt req w) = Inl ErrInterval \<longleftrightarrow> req_IntervalSeconds req < 1"
  proof (cases "req_IntervalSeconds req < 1")
    case True
    with m show ?thesis by (auto simp: AddTask_def Let_def)
  next
    case False
    then have i: "1 \<le> req_IntervalSeconds req" by simp
    show ?thesis
    proof (cases "flt = NoFault")
      case True
      from m have "normalize_method L (req_Method req) = ''GET'' \<or> normalize_method L (req_Method req) = ''POST''"
        by (simp add: normalize_method_def)
      from AddTask_ok(1) [OF this i, of clk rnd w] True False show ?thesis by simp
    next
      case f: False
      from AddTask_write_fails(1) [OF m i f, of clk rnd w] False show ?thesis by simp
    qed
  qed
next
  assume "valid_method L (req_Method req) \<and> 1 \<le> req_IntervalSeconds req"
  then have m: "normalize_method L (req_Method req) = ''GET'' \<or> normalize_method L (req_Method req) = ''POST''"
    and i: "1 \<le> req_IntervalSeconds req"
    by (simp_all add: valid_method_def)
  show "fst (AddTask L clk rnd NoFault req w) = Inr (fst (nextID (clk 0) rnd w))"
    using m i by (rule AddTask_ok(1))
  show "map_of (tasks (snd (AddTask L clk rnd NoFault req w))) (fst (nextID (clk 0) rnd w))
            = Some (added_task L clk rnd req w)"
    by (simp add: AddTask_ok(2) [OF m i] AList.update_conv')
  show "IntervalSeconds (added_task L clk rnd req w) = req_IntervalSeconds req"
    by (simp add: added_task_def)
  show "loops (snd (AddTask L clk rnd NoFault req w))
            = loops w @ [(ctxSeq w, fst (nextID (clk 0) rnd w))]"
    using m i by (rule AddTask_ok(3))
  show "target (snd (AddTask L clk rnd NoFault req w))
            = Content (snapshot (\<lambda>i. clk (i + 2)) (snd (AddTask L clk rnd NoFault req w)))"
    using m i by (rule AddTask_ok_target)
qed

text \<open>The theorem at the intervals 0 and 86401.\<close>

theorem AddTask_interval_check_witness:
  "snd (AddTask ascii ex_clock None NoFault (ex_req 0 ''http://example.test/ping'') ex_world)
     = ex_world
   \<and> fst (AddTask ascii ex_clock None NoFault (ex_req 0 ''http://example.test/ping'') ex_world)
     = Inl ErrInterval
   \<and> fst (AddTask ascii ex_clock None NoFault (ex_req 86401 ''http://example.test/ping'')
        ex_world) = Inr (fst (nextID (ex_clock 0) None ex_world))"
proof -
  have i: "req_IntervalSeconds (ex_req 0 ''http://example.test/ping'') < 1" by code_simp
  have j: "1 \<le> req_IntervalSeconds (ex_req 86401 ''http://example.test/ping'')" by code_simp
  have m: "valid_method ascii (req_Method (ex_req 0 ''http://example.test/ping''))"
    by code_simp
  have n: "valid_method ascii (req_Method (ex_req 86401 ''http://example.test/ping''))"
    by code_simp
  from AddTask_interval_check [of "ex_req 0 ''http://example.test/ping''" ascii ex_clock None
      NoFault ex_world] i m
    AddTask_interval_check [of "ex_req 86401 ''http://example.test/ping''" ascii ex_clock None
      NoFault ex_world] j n
  show ?thesis by blast
qed

text \<open>An interval of 86401 seconds is accepted: the task is stored, persisted and
  started.\<close>

theorem AddTask_accepts_interval_above_86400:
  "fst (AddTask ascii ex_clock (Some (0x0A, 0xFF)) NoFault
      (ex_req 86401 ''http://example.test/ping'') (boot Absent Absent))
     = Inr ''20261103T040506.000007000-0aff-1''
   \<and> map fst (tasks (snd (AddTask ascii ex_clock (Some (0x0A, 0xFF)) NoFault
        (ex_req 86401 ''http://example.test/ping'') (boot Absent Absent))))
     = [''20261103T040506.000007000-0aff-1'']
   \<and> map (IntervalSeconds \<circ> snd) (tasks (snd (AddTask ascii ex_clock (Some (0x0A, 0xFF)) NoFault
        (ex_req 86401 ''http://example.test/ping'') (boot Absent Absent))))
     = [86401]
   \<and> loops (snd (AddTask ascii ex_clock (Some (0x0A, 0xFF)) NoFault
        (ex_req 86401 ''http://example.test/ping'') (boot Absent Absent)))
     = [(0, ''20261103T040506.000007000-0aff-1'')]
   \<and> target (snd (AddTask ascii ex_clock (Some (0x0A, 0xFF)) NoFault
        (ex_req 86401 ''http://example.test/ping'') (boot Absent Absent)))
     \<noteq> Absent"
  by code_simp

section \<open>Pause is idempotent\<close>

text \<open>
  C4. Pausing a task that is already paused returns \<open>true\<close> and leaves the world as it
  is: no field changes, no context is cancelled, nothing is written. Pausing a second
  time, under any clock and write fault, gives the result and the world of pausing once.
\<close>
theorem PauseTask_idempotent:
  "(\<forall>t. map_of (tasks w) tid = Some t \<and> paused t \<longrightarrow> PauseTask clk flt tid w = (True, w))
   \<and> PauseTask clk' flt' tid (snd (PauseTask clk flt tid w)) = PauseTask clk flt tid w"
proof (intro conjI allI impI)
  fix t assume "map_of (tasks w) tid = Some t \<and> paused t"
  then show "PauseTask clk flt tid w = (True, w)" by (simp add: PauseTask_paused)
next
  show "PauseTask clk' flt' tid (snd (PauseTask clk flt tid w)) = PauseTask clk flt tid w"
  proof (cases "map_of (tasks w) tid")
    case None
    then show ?thesis by (simp add: PauseTask_def)
  next
    case (Some t)
    show ?thesis
    proof (cases "paused t")
      case True
      with Some show ?thesis by (simp add: PauseTask_paused)
    next
      case False
      from PauseTask_lookup [OF Some False]
      have "PauseTask clk' flt' tid (snd (PauseTask clk flt tid w)) = (True, snd (PauseTask clk flt tid w))"
        by (simp add: PauseTask_paused)
      moreover have "fst (PauseTask clk flt tid w) = True"
        using Some False by (simp add: PauseTask_def Let_def)
      ultimately show ?thesis by (metis prod.collapse)
    qed
  qed
qed

theorem PauseTask_idempotent_witness:
  "PauseTask ex_clock NoFault ''b'' ex_world = (True, ex_world)
   \<and> PauseTask ex_clock RenameFails ''a'' (snd (PauseTask ex_clock NoFault ''a'' ex_world))
       = PauseTask ex_clock NoFault ''a'' ex_world"
proof -
  have "map_of (tasks ex_world) ''b'' = Some (ex_task\<lparr>ID := ''b'', paused := True, cancel := None\<rparr>)
      \<and> paused (ex_task\<lparr>ID := ''b'', paused := True, cancel := None\<rparr>)"
    by code_simp
  with PauseTask_idempotent [of ex_world "''b''" ex_clock NoFault]
    PauseTask_idempotent [of ex_world "''a''" ex_clock NoFault ex_clock RenameFails]
  show ?thesis by blast
qed

section \<open>Remove\<close>

text \<open>
  C7, amended. Removing an id that is present calls the cancel function that is stored
  with the entry, if one is stored, and no other; it deletes the entry, writes a snapshot
  and returns \<open>true\<close>. When the write fails the deletion is not rolled back and \<open>true\<close>
  is still returned; the failure is discarded, nothing is logged, and \<open>config.json\<close>
  keeps its old content.
\<close>

theorem RemoveTask_deletes_without_rollback:
  assumes "map_of (tasks w) tid = Some t"
  shows "fst (RemoveTask clk flt tid w) = True
     \<and> tid \<notin> fst ` set (tasks (snd (RemoveTask clk flt tid w)))
     \<and> tasks (snd (RemoveTask clk flt tid w)) = AList.delete tid (tasks w)
     \<and> cancelled (snd (RemoveTask clk flt tid w)) =
         cancelled w @ (case cancel t of None \<Rightarrow> [] | Some c \<Rightarrow> [c])
     \<and> loops (snd (RemoveTask clk flt tid w)) = loops w
     \<and> logs (snd (RemoveTask clk flt tid w)) = logs w
     \<and> target (snd (RemoveTask clk flt tid w)) =
         (if flt = NoFault then Content (snapshot clk (snd (RemoveTask clk flt tid w))) else target w)"
proof -
  let ?w2 = "(cancelTask tid t w)\<lparr>tasks := AList.delete tid (tasks (cancelTask tid t w))\<rparr>"
  have R: "RemoveTask clk flt tid w = (True, snd (saveToDiskLocked clk flt ?w2))"
    using assms by (simp add: RemoveTask_def Let_def)
  have T: "tasks (snd (RemoveTask clk flt tid w)) = AList.delete tid (tasks w)"
    by (rule RemoveTask_tasks)
  have S: "snapshot clk (snd (RemoveTask clk flt tid w)) = snapshot clk ?w2"
    by (rule snapshot_cong) (simp_all add: R save_simps)
  have C: "cancelled (snd (RemoveTask clk flt tid w)) =
      cancelled w @ (case cancel t of None \<Rightarrow> [] | Some c \<Rightarrow> [c])"
    by (simp add: R save_simps cancelTask_cancelled split: option.splits)
  have N: "tid \<notin> fst ` set (AList.delete tid (tasks w))"
    by (rule AList.delete_notin_dom)
  show ?thesis
    unfolding T S C using N
    by (simp add: R save_simps cancelTask_frame)
qed

text \<open>The theorem at the running task \<open>a\<close> and a failing rename.\<close>

theorem RemoveTask_deletes_without_rollback_witness:
  "fst (RemoveTask ex_clock RenameFails ''a'' ex_world) = True
   \<and> tasks (snd (RemoveTask ex_clock RenameFails ''a'' ex_world)) = AList.delete ''a'' (tasks ex_world)
   \<and> cancelled (snd (RemoveTask ex_clock RenameFails ''a'' ex_world)) = cancelled ex_world @ [0]
   \<and> target (snd (RemoveTask ex_clock RenameFails ''a'' ex_world)) = target ex_world"
proof -
  have h: "map_of (tasks ex_world) ''a'' = Some ex_task" by code_simp
  have c: "cancel ex_task = Some 0" by code_simp
  have f: "RenameFails \<noteq> NoFault" by simp
  from RemoveTask_deletes_without_rollback [OF h, of ex_clock RenameFails] c f
  show ?thesis by simp
qed

text \<open>
  After the restore of a file that holds the id \<open>x\<close> twice, two loops run for \<open>x\<close> and
  the registry holds the cancel function of the second. A remove whose write fails
  returns \<open>true\<close>, logs nothing, and leaves the first loop uncancelled.
\<close>

theorem RemoveTask_logs_nothing_and_leaves_a_loop:
  "map fst (tasks ex_twice) = [''x'']
   \<and> loops ex_twice = [(0, ''x''), (1, ''x'')]
   \<and> cancelled ex_twice = []
   \<and> fst (RemoveTask ex_clock RenameFails ''x'' ex_twice) = True
   \<and> tasks (snd (RemoveTask ex_clock RenameFails ''x'' ex_twice)) = []
   \<and> logs (snd (RemoveTask ex_clock RenameFails ''x'' ex_twice)) = logs ex_twice
   \<and> loops (snd (RemoveTask ex_clock RenameFails ''x'' ex_twice)) = [(0, ''x''), (1, ''x'')]
   \<and> cancelled (snd (RemoveTask ex_clock RenameFails ''x'' ex_twice)) = [1]"
  by code_simp

section \<open>Execution attempts\<close>

lemma executeOnce_frame:
  "fst (executeOnce t r) = t\<lparr>runCount := runCount t + (if is_response r then 1 else 0)\<rparr>"
  by (cases r) (simp_all add: executeOnce_def Let_def)

lemma executeOnce_sends:
  "length (filter is_send (snd (executeOnce t r))) = (if r = BuildError then 0 else 1)"
  by (cases r) (simp_all add: executeOnce_def Let_def)

lemma executeOnce_interval: "IntervalSeconds (fst (executeOnce t r)) = IntervalSeconds t"
  by (simp add: executeOnce_frame)

lemma runLoop_state:
  "fst (runLoop t turns) = (if CtxDone \<in> set turns then Stopped else Running)"
proof (induction turns arbitrary: t)
  case Nil
  show ?case by simp
next
  case (Cons a turns)
  then show ?case by (cases a) (simp_all add: split_beta)
qed

lemma runLoop_task:
  "fst (snd (runLoop t turns)) =
     t\<lparr>runCount := runCount t + of_nat (length (filter is_response (executed turns)))\<rparr>"
proof (induction turns arbitrary: t)
  case Nil
  show ?case by simp
next
  case (Cons a turns)
  then show ?case by (cases a) (simp_all add: split_beta executeOnce_frame add.assoc)
qed

lemma runLoop_sends:
  "length (filter is_send (snd (snd (runLoop t turns)))) =
     length (filter (\<lambda>r. r \<noteq> BuildError) (executed turns))"
proof (induction turns arbitrary: t)
  case Nil
  show ?case by simp
next
  case (Cons a turns)
  then show ?case by (cases a) (simp_all add: split_beta executeOnce_sends)
qed

lemma tickerInterval_positive:
  assumes "1 \<le> n" "n \<le> 9223372036"
  shows "0 < tickerInterval n"
proof -
  have e: "word_of_int n * (1000000000 :: 64 word) = word_of_int (n * 1000000000)"
    by simp
  have "sint (word_of_int (n * 1000000000) :: 64 word) = signed_take_bit 63 (n * 1000000000)"
    by (simp only: signed_of_int) simp
  also have "\<dots> = n * 1000000000"
    using assms by (intro signed_take_bit_int_eq_self) simp_all
  finally have "tickerInterval n = n * 1000000000"
    unfolding tickerInterval_def e .
  with assms show ?thesis by simp
qed

text \<open>
  C2, amended. An execution attempt that fails with a transport error sends one request,
  logs the error and leaves the task as it is: the run counter is not incremented. A
  response, of any status, increments the run counter by one after its body is discarded
  and closed. A failure does not pause, retry or end the loop of \<open>runTask\<close>: when the
  ticker could be started, which it can for every interval from 1 to 9223372036 seconds,
  the loop returns only when its context is done, every turn before that makes one
  attempt, and the counter grows by the number of responses. When the interval in
  nanoseconds is not positive as a 64-bit integer, \<open>runTask\<close> panics after its first
  attempt.
\<close>

theorem executeOnce_counts_responses_only:
  "executeOnce t TransportError =
     (t, [SendRequest (Method t) (URL t), Logged (LogRequestError (ID t))])
   \<and> executeOnce t (Response status True) =
     (t\<lparr>runCount := runCount t + 1\<rparr>,
      [SendRequest (Method t) (URL t), DiscardBody, CloseBody, IncRunCount,
       Logged (LogTaskResult (ID t) (Method t) (URL t) status (runCount t + 1))])
   \<and> (1 \<le> IntervalSeconds t \<and> IntervalSeconds t \<le> 9223372036
        \<longrightarrow> 0 < tickerInterval (IntervalSeconds t))
   \<and> (0 < tickerInterval (IntervalSeconds t) \<longrightarrow>
        fst (runTask t r0 turns) = (if CtxDone \<in> set turns then Stopped else Running)
        \<and> fst (snd (runTask t r0 turns)) =
            t\<lparr>runCount := runCount t + of_nat (length (filter is_response (r0 # executed turns)))\<rparr>
        \<and> length (filter is_send (snd (snd (runTask t r0 turns)))) =
            length (filter (\<lambda>r. r \<noteq> BuildError) (r0 # executed turns)))
   \<and> (tickerInterval (IntervalSeconds t) \<le> 0 \<longrightarrow>
        runTask t r0 turns = (Panicked, executeOnce t r0))"
proof (intro conjI impI)
  show "executeOnce t TransportError =
     (t, [SendRequest (Method t) (URL t), Logged (LogRequestError (ID t))])"
    by (simp add: executeOnce_def)
  show "executeOnce t (Response status True) =
     (t\<lparr>runCount := runCount t + 1\<rparr>,
      [SendRequest (Method t) (URL t), DiscardBody, CloseBody, IncRunCount,
       Logged (LogTaskResult (ID t) (Method t) (URL t) status (runCount t + 1))])"
    by (simp add: executeOnce_def Let_def)
  show "0 < tickerInterval (IntervalSeconds t)"
    if "1 \<le> IntervalSeconds t \<and> IntervalSeconds t \<le> 9223372036"
    using that by (simp add: tickerInterval_positive)
  show "runTask t r0 turns = (Panicked, executeOnce t r0)"
    if "tickerInterval (IntervalSeconds t) \<le> 0"
    using that by (simp add: runTask_def split_beta executeOnce_interval)
next
  assume p: "0 < tickerInterval (IntervalSeconds t)"
  then have R: "runTask t r0 turns =
      (fst (runLoop (fst (executeOnce t r0)) turns),
       fst (snd (runLoop (fst (executeOnce t r0)) turns)),
       snd (executeOnce t r0) @ snd (snd (runLoop (fst (executeOnce t r0)) turns)))"
    by (simp add: runTask_def split_beta executeOnce_interval)
  show "fst (runTask t r0 turns) = (if CtxDone \<in> set turns then Stopped else Running)"
    by (simp add: R runLoop_state)
  show "fst (snd (runTask t r0 turns)) =
      t\<lparr>runCount := runCount t + of_nat (length (filter is_response (r0 # executed turns)))\<rparr>"
    by (simp add: R runLoop_task executeOnce_frame add.assoc)
  show "length (filter is_send (snd (snd (runTask t r0 turns)))) =
      length (filter (\<lambda>r. r \<noteq> BuildError) (r0 # executed turns))"
    by (simp add: R runLoop_sends executeOnce_sends)
qed

text \<open>The theorem at a task with an interval of 5 seconds: after a failed first attempt
  and a failed tick the loop is still running, and the next tick is counted.\<close>

theorem executeOnce_counts_responses_only_witness:
  "fst (runTask ex_task TransportError [Tick TransportError, Tick (Response ''200 OK'' True)])
     = Running
   \<and> fst (snd (runTask ex_task TransportError
        [Tick TransportError, Tick (Response ''200 OK'' True)]))
     = ex_task\<lparr>runCount := runCount ex_task + 1\<rparr>
   \<and> 0 < tickerInterval (IntervalSeconds ex_task)"
proof -
  have i: "1 \<le> IntervalSeconds ex_task \<and> IntervalSeconds ex_task \<le> 9223372036"
    by code_simp
  have c: "CtxDone \<notin> set [Tick TransportError, Tick (Response ''200 OK'' True)]"
    by simp
  have n: "length (filter is_response
      (TransportError # executed [Tick TransportError, Tick (Response ''200 OK'' True)])) = 1"
    by simp
  from executeOnce_counts_responses_only [of ex_task "''200 OK''" TransportError
      "[Tick TransportError, Tick (Response ''200 OK'' True)]"] i c
  show ?thesis unfolding n by simp
qed

text \<open>A transport error leaves the run counter at 7, where counting the attempt would
  make it 8.\<close>

theorem executeOnce_transport_error_not_counted:
  "runCount (fst (executeOnce ex_task TransportError)) = 7
   \<and> runCount ex_task + 1 = 8"
  by code_simp

section \<open>The handle and the paused flag\<close>

text \<open>
  C8. In every world that the operations reach (start, restore, add, remove and pause,
  whatever their outcome), each task in the registry is paused exactly when no cancel
  function is stored with it.
\<close>

theorem handle_present_iff_not_paused:
  assumes "reachable L w"
  shows "\<forall>p \<in> set (tasks w). paused (snd p) \<longleftrightarrow> cancel (snd p) = None"
  using assms
  by (rule reachable_entries) (simp_all add: added_task_def)

text \<open>The theorem after an add and a pause: the task is paused and has no handle; before
  the pause it had the handle of context 0.\<close>

theorem handle_present_iff_not_paused_witness:
  "list_all (\<lambda>p. paused (snd p) \<longleftrightarrow> cancel (snd p) = None) (tasks ex_paused)
   \<and> map (\<lambda>p. paused (snd p)) (tasks ex_paused) = [True]
   \<and> map (\<lambda>p. cancel (snd p)) (tasks ex_added) = [Some 0]"
proof -
  have "reachable ascii ex_paused"
    unfolding ex_paused_def ex_added_def
    by (intro reachable.intros)
  from handle_present_iff_not_paused [OF this]
  have "list_all (\<lambda>p. paused (snd p) \<longleftrightarrow> cancel (snd p) = None) (tasks ex_paused)"
    by (simp add: list_all_iff)
  moreover have "map (\<lambda>p. paused (snd p)) (tasks ex_paused) = [True]"
    by code_simp
  moreover have "map (\<lambda>p. cancel (snd p)) (tasks ex_added) = [Some 0]"
    by code_simp
  ultimately show ?thesis by simp
qed

section \<open>The method in the registry\<close>

lemma reachable_methods:
  assumes "reachable L w"
  shows "\<forall>p \<in> set (tasks w). Method (snd p) = ''GET'' \<or> Method (snd p) = ''POST''"
  using assms
proof (rule reachable_entries)
  fix pt t
  assume "valid_entry L pt" "task_tuple t = restored_tuple L pt"
  then show "Method (snd (p_ID pt, t)) = ''GET'' \<or> Method (snd (p_ID pt, t)) = ''POST''"
    by (auto simp: valid_entry_def valid_method_def task_tuple_def restored_tuple_def)
qed (simp_all add: added_task_def)



section \<open>Restore keeps the valid entries\<close>

lemma tasks_without_logs: "tasks (without_logs w) = tasks w"
  by (simp add: without_logs_def)

lemma restoreTasks_filter_tasks:
  "tasks (snd (restoreTasks L clk n pts w)) =
     tasks (snd (restoreTasks L clk n (filter (valid_entry L) pts) w))"
proof -
  have "without_logs (snd (restoreTasks L clk n pts w)) =
      without_logs (snd (restoreTasks L clk n (filter (valid_entry L) pts) w))"
    using restoreTasks_filter_gen [of w w L clk n pts] by simp
  then have "tasks (without_logs (snd (restoreTasks L clk n pts w))) =
      tasks (without_logs (snd (restoreTasks L clk n (filter (valid_entry L) pts) w)))"
    by (rule arg_cong)
  then show ?thesis by (simp only: tasks_without_logs)
qed

lemma restoreTasks_tuples_filter:
  assumes "distinct (map p_ID (filter (valid_entry L) pts))" "tasks w = []"
  shows "registry_tuples (snd (restoreTasks L clk n pts w)) =
     restored_tuple L ` set (filter (valid_entry L) pts)"
proof -
  have "registry_tuples (snd (restoreTasks L clk n pts w)) =
      registry_tuples (snd (restoreTasks L clk n (filter (valid_entry L) pts) w))"
    unfolding registry_tuples_def by (simp only: restoreTasks_filter_tasks [of L clk n pts w])
  also have "\<dots> = registry_tuples w \<union> restored_tuple L ` set (filter (valid_entry L) pts)"
  proof (rule restoreTasks_tuples)
    show "list_all (valid_entry L) (filter (valid_entry L) pts)" by (simp add: list_all_iff)
    show "distinct (map p_ID (filter (valid_entry L) pts))" by (rule assms(1))
    show "p_ID ` set (filter (valid_entry L) pts) \<inter> fst ` set (tasks w) = {}"
      by (simp add: assms(2))
  qed
  also have "registry_tuples w = {}" by (simp add: registry_tuples_def assms(2))
  finally show ?thesis by simp
qed

text \<open>The world in which \<open>loadFromDisk\<close> starts its restore loop after a start.\<close>

lemma boot_load:
  "loadFromDisk L clk False flt (boot (Content v) g) =
     (None,
      (snd (restoreTasks L clk 0 (Tasks (decodeFile L v))
         ((boot (Content v) g)\<lparr>port := (if Port v > 0 then Port v else 9000),
            logs := [LogUsingPort (if Port v > 0 then Port v else 9000)]\<rparr>)))
       \<lparr>logs := logs (snd (restoreTasks L clk 0 (Tasks (decodeFile L v))
         ((boot (Content v) g)\<lparr>port := (if Port v > 0 then Port v else 9000),
            logs := [LogUsingPort (if Port v > 0 then Port v else 9000)]\<rparr>)))
          @ [LogRestoreDone (fst (restoreTasks L clk 0 (Tasks (decodeFile L v))
         ((boot (Content v) g)\<lparr>port := (if Port v > 0 then Port v else 9000),
            logs := [LogUsingPort (if Port v > 0 then Port v else 9000)]\<rparr>)))]\<rparr>)"
  by (simp add: loadFromDisk_def Let_def split_beta boot_def NewScheduler_def decodeFile_def)

lemma boot_load_tasks:
  "tasks (snd (loadFromDisk L clk False flt (boot (Content v) g))) =
     tasks (snd (restoreTasks L clk 0 (Tasks (decodeFile L v))
         ((boot (Content v) g)\<lparr>port := (if Port v > 0 then Port v else 9000),
            logs := [LogUsingPort (if Port v > 0 then Port v else 9000)]\<rparr>)))"
  by (simp add: boot_load)

text \<open>
  C5. The restore is a filter on the entries of the file, taken as the decoder gives
  them. Started on a file that decodes, it does not fail; the ids in the registry are
  exactly the ids of the entries whose method normalizes to GET or POST, whose interval is
  at least 1 and whose URL is not blank; every task in the registry is made from such an
  entry, and when their ids differ from each other the tuples of the registry are exactly
  theirs. Whatever the world in which the loop starts, restoring a list of entries gives
  the world, the log apart, that restoring its valid entries alone gives, and the counter
  of restored entries is the number of valid entries: an invalid entry changes nothing
  but the log.
\<close>

theorem restore_is_per_entry_filter:
  "fst (loadFromDisk L clk False flt (boot (Content v) g)) = None
   \<and> fst ` set (tasks (snd (loadFromDisk L clk False flt (boot (Content v) g))))
       = p_ID ` set (filter (valid_entry L) (Tasks (decodeFile L v)))
   \<and> (\<forall>p \<in> set (tasks (snd (loadFromDisk L clk False flt (boot (Content v) g)))).
         \<exists>pt \<in> set (Tasks (decodeFile L v)). valid_entry L pt \<and> fst p = p_ID pt
           \<and> task_tuple (snd p) = restored_tuple L pt)
   \<and> (distinct (map p_ID (filter (valid_entry L) (Tasks (decodeFile L v)))) \<longrightarrow>
         registry_tuples (snd (loadFromDisk L clk False flt (boot (Content v) g)))
           = restored_tuple L ` set (filter (valid_entry L) (Tasks (decodeFile L v))))
   \<and> without_logs (snd (restoreTasks L clk n pts w))
       = without_logs (snd (restoreTasks L clk n (filter (valid_entry L) pts) w))
   \<and> fst (restoreTasks L clk n pts w) = n + length (filter (valid_entry L) pts)"
proof (intro conjI impI ballI)
  let ?w = "(boot (Content v) g)\<lparr>port := (if Port v > 0 then Port v else 9000),
            logs := [LogUsingPort (if Port v > 0 then Port v else 9000)]\<rparr>"
  have e: "tasks ?w = []" by (simp add: boot_def NewScheduler_def)
  show "fst (loadFromDisk L clk False flt (boot (Content v) g)) = None"
    by (simp add: boot_load)
  show "fst ` set (tasks (snd (loadFromDisk L clk False flt (boot (Content v) g))))
       = p_ID ` set (filter (valid_entry L) (Tasks (decodeFile L v)))"
    unfolding boot_load_tasks restoreTasks_keys e by simp
  show "registry_tuples (snd (loadFromDisk L clk False flt (boot (Content v) g)))
           = restored_tuple L ` set (filter (valid_entry L) (Tasks (decodeFile L v)))"
    if "distinct (map p_ID (filter (valid_entry L) (Tasks (decodeFile L v))))"
  proof -
    have "registry_tuples (snd (loadFromDisk L clk False flt (boot (Content v) g))) =
        registry_tuples (snd (restoreTasks L clk 0 (Tasks (decodeFile L v)) ?w))"
      unfolding registry_tuples_def by (simp only: boot_load_tasks)
    then show ?thesis
      by (simp only: restoreTasks_tuples_filter [OF that e])
  qed
  show "\<exists>pt \<in> set (Tasks (decodeFile L v)). valid_entry L pt \<and> fst p = p_ID pt
      \<and> task_tuple (snd p) = restored_tuple L pt"
    if "p \<in> set (tasks (snd (loadFromDisk L clk False flt (boot (Content v) g))))" for p
  proof -
    from that have "(fst p, snd p) \<in> set (tasks (snd (restoreTasks L clk 0 (Tasks (decodeFile L v)) ?w)))"
      by (simp only: boot_load_tasks prod.collapse)
    from restoreTasks_entries [OF this]
    have "\<exists>pt\<in>set (Tasks (decodeFile L v)). valid_entry L pt \<and> fst p = p_ID pt
        \<and> task_tuple (snd p) = restored_tuple L pt \<and> (paused (snd p) \<longleftrightarrow> cancel (snd p) = None)"
      unfolding e by simp
    then show ?thesis by blast
  qed
  show "without_logs (snd (restoreTasks L clk n pts w))
       = without_logs (snd (restoreTasks L clk n (filter (valid_entry L) pts) w))"
    using restoreTasks_filter_gen [of w w L clk n pts] by simp
  show "fst (restoreTasks L clk n pts w) = n + length (filter (valid_entry L) pts)"
    by (rule restoreTasks_count)
qed

text \<open>The theorem at a file with an entry of method DELETE, an enabled entry of method
  \<open> get\<close> and a disabled entry of method \<open>Post\<close>: the last two are restored.\<close>

theorem restore_is_per_entry_filter_witness:
  "fst (loadFromDisk ascii ex_clock False NoFault (boot (Content ex_file) Absent)) = None
   \<and> fst ` set (tasks (snd (loadFromDisk ascii ex_clock False NoFault
        (boot (Content ex_file) Absent)))) = {''b'', ''c''}
   \<and> registry_tuples (snd (loadFromDisk ascii ex_clock False NoFault
        (boot (Content ex_file) Absent)))
       = {(''b'', 5, ''http://example.test/ping'', ''GET'', ''d'', True),
          (''c'', 5, ''http://example.test/ping'', ''POST'', ''d'', False)}"
proof -
  have f: "filter (valid_entry ascii) (Tasks (decodeFile ascii ex_file)) =
      [ex_entry ''b'' '' get'' True, ex_entry ''c'' ''Post'' False]"
    by code_simp
  have d: "distinct (map p_ID (filter (valid_entry ascii) (Tasks (decodeFile ascii ex_file))))"
    unfolding f by code_simp
  have r: "map (restored_tuple ascii) [ex_entry ''b'' '' get'' True, ex_entry ''c'' ''Post'' False] =
      [(''b'', 5, ''http://example.test/ping'', ''GET'', ''d'', True),
       (''c'', 5, ''http://example.test/ping'', ''POST'', ''d'', False)]"
    by code_simp
  have i: "map p_ID [ex_entry ''b'' '' get'' True, ex_entry ''c'' ''Post'' False] = [''b'', ''c'']"
    by code_simp
  have "restored_tuple ascii ` set [ex_entry ''b'' '' get'' True, ex_entry ''c'' ''Post'' False] =
      set (map (restored_tuple ascii) [ex_entry ''b'' '' get'' True, ex_entry ''c'' ''Post'' False])"
    by (simp only: set_map)
  then have r': "restored_tuple ascii ` set [ex_entry ''b'' '' get'' True, ex_entry ''c'' ''Post'' False] =
      {(''b'', 5, ''http://example.test/ping'', ''GET'', ''d'', True),
       (''c'', 5, ''http://example.test/ping'', ''POST'', ''d'', False)}"
    unfolding r by simp
  have "p_ID ` set [ex_entry ''b'' '' get'' True, ex_entry ''c'' ''Post'' False] =
      set (map p_ID [ex_entry ''b'' '' get'' True, ex_entry ''c'' ''Post'' False])"
    by (simp only: set_map)
  then have i': "p_ID ` set [ex_entry ''b'' '' get'' True, ex_entry ''c'' ''Post'' False] = {''b'', ''c''}"
    unfolding i by simp
  from restore_is_per_entry_filter [of ascii ex_clock NoFault ex_file Absent] d
  show ?thesis unfolding f r' i' by blast
qed

section \<open>Snapshots\<close>

lemma persistTasks_tuples: "map entry_tuple (persistTasks clk k now ts) = map task_tuple ts"
  by (induction ts arbitrary: k) (simp_all add: Let_def entry_tuple_def task_tuple_def)

lemma persistTasks_ids: "map p_ID (persistTasks clk k now ts) = map ID ts"
  by (induction ts arbitrary: k) (simp_all add: Let_def)




lemma snapshot_tasks_set:
  "set (Tasks (snapshot clk w)) =
     set (persistTasks clk 1 (format_RFC3339Nano (clk 0)) (map snd (tasks w)))"
  by (simp add: snapshot_def)

lemma reachable_keys:
  assumes "reachable L w"
  shows "\<forall>p \<in> set (tasks w). ID (snd p) = fst p \<and> 1 \<le> IntervalSeconds (snd p)"
  using assms
proof (rule reachable_entries)
  fix pt t
  assume "valid_entry L pt" "task_tuple t = restored_tuple L pt"
  then show "ID (snd (p_ID pt, t)) = fst (p_ID pt, t) \<and> 1 \<le> IntervalSeconds (snd (p_ID pt, t))"
    by (auto simp: valid_entry_def task_tuple_def restored_tuple_def)
qed (simp_all add: added_task_def)

section \<open>Persist and restore\<close>

text \<open>
  C6, amended. Take a world that the operations reach and in which every task has a URL
  that is not blank, and an id, URL, method and description that the library leaves alone
  (valid UTF-8; GET and POST as they are). Writing the snapshot stores it in
  \<open>config.json\<close>, and a new scheduler that restores from a file holding the entries of
  the snapshot, in any order, has exactly the tuples (id, intervalSeconds, url, method,
  description, enabled) of that world, where enabled is not paused.
\<close>

theorem snapshot_restore_round_trip:
  assumes "reachable L w"
    and "\<forall>p \<in> set (tasks w). survives L (snd p)"
    and "mset pts = mset (Tasks (snapshot clk w))"
  shows "target (snd (saveToDiskLocked clk NoFault w)) = Content (snapshot clk w)
     \<and> fst (loadFromDisk L clk' False flt
          (boot (Content \<lparr>Version = n, Port = p, Tasks = pts\<rparr>) g)) = None
     \<and> registry_tuples (snd (loadFromDisk L clk' False flt
          (boot (Content \<lparr>Version = n, Port = p, Tasks = pts\<rparr>) g))) = registry_tuples w"
proof (intro conjI)
  let ?ts = "map snd (tasks w)"
  let ?es = "persistTasks clk 1 (format_RFC3339Nano (clk 0)) ?ts"
  let ?ds = "map (decodeTask L) pts"
  let ?v = "\<lparr>Version = n, Port = p, Tasks = pts\<rparr>"
  let ?w0 = "(boot (Content ?v) g)\<lparr>port := (if Port ?v > 0 then Port ?v else 9000),
            logs := [LogUsingPort (if Port ?v > 0 then Port ?v else 9000)]\<rparr>"
  show "target (snd (saveToDiskLocked clk NoFault w)) = Content (snapshot clk w)"
    by (simp add: save_simps)
  show "fst (loadFromDisk L clk' False flt (boot (Content ?v) g)) = None"
    by (simp add: boot_load)
  have set_pts: "set pts = set ?es"
    using mset_eq_setD [OF assms(3)] by (simp add: snapshot_def)
  have keys: "\<forall>p \<in> set (tasks w). ID (snd p) = fst p \<and> 1 \<le> IntervalSeconds (snd p)"
    using assms(1) by (rule reachable_keys)
  have meth: "\<forall>p \<in> set (tasks w). Method (snd p) = ''GET'' \<or> Method (snd p) = ''POST''"
    using assms(1) by (rule reachable_methods)
  have "map ID ?ts = map fst (tasks w)"
    using keys by (induction "tasks w") auto
  then have ids: "map p_ID ?es = map fst (tasks w)"
    by (simp only: persistTasks_ids)
  have "distinct (map fst (tasks w))"
    using assms(1) by (rule reachable_distinct)
  then have dist_es: "distinct (map p_ID ?es)"
    by (simp only: ids)
  have "mset pts = mset ?es"
    using assms(3) by (simp add: snapshot_def)
  then have "image_mset p_ID (mset pts) = image_mset p_ID (mset ?es)"
    by (rule arg_cong)
  then have "mset (map p_ID pts) = mset (map p_ID ?es)"
    by simp
  then have "distinct (map p_ID pts) \<longleftrightarrow> distinct (map p_ID ?es)"
    by (rule mset_eq_imp_distinct_iff)
  with dist_es have dist_pts: "distinct (map p_ID pts)"
    by blast
  have good: "valid_entry L (decodeTask L e) \<and> restored_tuple L (decodeTask L e) = entry_tuple e
      \<and> p_ID (decodeTask L e) = p_ID e" if "e \<in> set pts" for e
  proof -
    from that set_pts have "entry_tuple e \<in> set (map entry_tuple ?es)" by simp
    then have "entry_tuple e \<in> set (map task_tuple ?ts)"
      by (simp only: persistTasks_tuples)
    then obtain q where q: "q \<in> set (tasks w)" and e: "entry_tuple e = task_tuple (snd q)"
      by auto
    from q assms(2) keys meth have "survives L (snd q)" "1 \<le> IntervalSeconds (snd q)"
      "Method (snd q) = ''GET'' \<or> Method (snd q) = ''POST''" by auto
    with e show ?thesis
      by (auto simp: entry_tuple_def task_tuple_def survives_def valid_entry_def valid_method_def
          restored_tuple_def decodeTask_def)
  qed
  have valid: "list_all (valid_entry L) ?ds"
    using good by (simp add: list_all_iff)
  have eq: "map p_ID ?ds = map p_ID pts"
    using good by (simp add: comp_def)
  have dist: "distinct (map p_ID ?ds)"
    unfolding eq by (rule dist_pts)
  have tup: "restored_tuple L ` set ?ds = entry_tuple ` set pts"
    using good by (auto simp: image_iff) 
  have "registry_tuples (snd (loadFromDisk L clk' False flt (boot (Content ?v) g))) =
      registry_tuples (snd (restoreTasks L clk' 0 ?ds ?w0))"
    unfolding registry_tuples_def by (simp add: boot_load_tasks decodeFile_def)
  also have "\<dots> = registry_tuples ?w0 \<union> restored_tuple L ` set ?ds"
    using valid dist by (rule restoreTasks_tuples) (simp add: boot_def NewScheduler_def)
  also have "registry_tuples ?w0 = {}"
    by (simp add: registry_tuples_def boot_def NewScheduler_def)
  also have "{} \<union> restored_tuple L ` set ?ds = entry_tuple ` set ?es"
    by (simp only: tup set_pts) simp
  also have "\<dots> = set (map entry_tuple ?es)" by simp
  also have "\<dots> = set (map task_tuple ?ts)" by (simp only: persistTasks_tuples)
  also have "\<dots> = registry_tuples w" by (simp add: registry_tuples_def image_image)
  finally show "registry_tuples (snd (loadFromDisk L clk' False flt (boot (Content ?v) g))) =
      registry_tuples w" .
qed

text \<open>The theorem at the world restored from the example file, with the entries of its
  snapshot in reverse order: the running task \<open>b\<close> and the paused task \<open>c\<close> come back.\<close>

theorem snapshot_restore_round_trip_witness:
  "registry_tuples (snd (loadFromDisk ascii ex_clock False NoFault
      (boot (Content \<lparr>Version = 1, Port = 9000,
         Tasks = rev (Tasks (snapshot ex_clock ex_loaded))\<rparr>) Absent)))
     = registry_tuples ex_loaded
   \<and> map (task_tuple \<circ> snd) (tasks ex_loaded)
     = [(''b'', 5, ''http://example.test/ping'', ''GET'', ''d'', True),
        (''c'', 5, ''http://example.test/ping'', ''POST'', ''d'', False)]
   \<and> map p_ID (rev (Tasks (snapshot ex_clock ex_loaded))) = [''c'', ''b'']"
proof -
  have r: "reachable ascii ex_loaded"
    unfolding ex_loaded_def by (intro reachable.intros)
  have "list_all (\<lambda>p. survives ascii (snd p)) (tasks ex_loaded)"
    by code_simp
  then have s: "\<forall>p \<in> set (tasks ex_loaded). survives ascii (snd p)"
    by (simp add: list_all_iff)
  have m: "mset (rev (Tasks (snapshot ex_clock ex_loaded))) = mset (Tasks (snapshot ex_clock ex_loaded))"
    by simp
  have t: "map (task_tuple \<circ> snd) (tasks ex_loaded)
     = [(''b'', 5, ''http://example.test/ping'', ''GET'', ''d'', True),
        (''c'', 5, ''http://example.test/ping'', ''POST'', ''d'', False)]"
    by code_simp
  have o: "map p_ID (rev (Tasks (snapshot ex_clock ex_loaded))) = [''c'', ''b'']"
    by code_simp
  from snapshot_restore_round_trip [OF r s m, where clk' = ex_clock and flt = NoFault and n = 1
      and p = 9000 and g = Absent] t o
  show ?thesis by blast
qed

text \<open>
  Without the condition on the URL the round trip fails: \<open>AddTask\<close> accepts a request
  with an empty URL, the snapshot holds its entry, and the restore from that file skips
  it.
\<close>

theorem round_trip_loses_blank_url:
  "fst (AddTask ascii ex_clock None NoFault (ex_req 5 []) (boot Absent Absent)) = Inr ex_id
   \<and> map (task_tuple \<circ> snd) (tasks ex_blank) = [(ex_id, 5, [], ''GET'', ''d'', True)]
   \<and> target ex_blank \<noteq> Absent
   \<and> tasks (snd (loadFromDisk ascii ex_clock False NoFault (boot (target ex_blank) Absent))) = []"
  by code_simp

section \<open>The time stamp of a snapshot\<close>





end
